theory Spec2Isabelle
  imports Main "HOL-Library.Word"
begin

unbundle bit_operations_syntax

section \<open>kcolor: a 3D vector of 15-bit components (kcolor.h)\<close>

text \<open>
  \<^verbatim>\<open>typedef struct kcolor { int16_t a[3]; } kcolor;\<close>
  The three array cells \<^verbatim>\<open>a[0]\<close>, \<^verbatim>\<open>a[1]\<close>, \<^verbatim>\<open>a[2]\<close> are the fields
  \<open>a0\<close>, \<open>a1\<close>, \<open>a2\<close>. A cell is a 16-bit word, read as a signed value by \<open>sint\<close>.
  C's \<^verbatim>\<open>int\<close> and \<^verbatim>\<open>int32_t\<close> are 32-bit words; the promotion of an
  \<^verbatim>\<open>int16_t\<close> to \<^verbatim>\<open>int\<close> is the sign extension \<open>scast\<close>, the promotion of a
  \<^verbatim>\<open>uint16_t\<close> is the zero extension \<open>ucast\<close>.
\<close>

type_synonym int16_t = "16 word"
type_synonym uint16_t = "16 word"
type_synonym int32_t = "32 word"
type_synonym uint32_t = "32 word"

record kcolor =
  a0 :: int16_t
  a1 :: int16_t
  a2 :: int16_t

text \<open>\<^verbatim>\<open>#define KC_MAX 0x7FFF\<close>\<close>

definition KC_MAX :: int32_t where
  "KC_MAX = 0x7FFF"

text \<open>\<^verbatim>\<open>#define KC_CLAMPV(v) ((v) < 0 ? 0 : ((v) < KC_MAX ? (v) : KC_MAX))\<close>\<close>

definition KC_CLAMPV :: "int32_t \<Rightarrow> int32_t" where
  "KC_CLAMPV v = (if v <s 0 then 0 else (if v <s KC_MAX then v else KC_MAX))"

text \<open>
  \<^verbatim>\<open>int32_t d0 = x->a[0] - y->a[0], d1 = x->a[1] - y->a[1], d2 = x->a[2] - y->a[2];
  return d0 * d0 + d1 * d1 + d2 * d2;\<close>
  The differences, the products and the sum are computed in 32-bit arithmetic
  (wrapping), and the sum is returned as a \<^verbatim>\<open>uint32_t\<close>.
\<close>

definition kc_distance :: "kcolor \<Rightarrow> kcolor \<Rightarrow> uint32_t" where
  "kc_distance x y =
     (let d0 = (scast (a0 x) :: int32_t) - scast (a0 y);
          d1 = (scast (a1 x) :: int32_t) - scast (a1 y);
          d2 = (scast (a2 x) :: int32_t) - scast (a2 y)
      in d0 * d0 + d1 * d1 + d2 * d2)"

text \<open>
  The data-model range of a component is \<open>0 .. KC_MAX\<close>. A 16-bit signed cell never
  exceeds \<open>KC_MAX = 32767\<close>, so the range says that no component is negative.
\<close>

definition kc_inrange :: "kcolor \<Rightarrow> bool" where
  "kc_inrange x \<longleftrightarrow> 0 \<le> sint (a0 x) \<and> 0 \<le> sint (a1 x) \<and> 0 \<le> sint (a2 x)"

subsection \<open>Gamma tables\<close>

text \<open>
  \<^verbatim>\<open>extern uint16_t* gamma_tables[2];\<close>
  The tables are declared in the header and filled elsewhere, so they are a parameter of
  every function that reads them: \<open>gt_fwd\<close> is \<^verbatim>\<open>gamma_tables[0]\<close> (256 gamma-conversion
  values), \<open>gt_rev\<close> is \<^verbatim>\<open>gamma_tables[1]\<close> (256 reverse gamma-conversion values).
\<close>

record gamma_tables =
  gt_fwd :: "uint16_t list"
  gt_rev :: "uint16_t list"

text \<open>
  Reading \<^verbatim>\<open>t[i]\<close> with an \<^verbatim>\<open>int\<close> index. An index that is negative or past the
  end of the table reads outside the array; the model returns \<open>None\<close> there.
\<close>

definition table_at :: "uint16_t list \<Rightarrow> int32_t \<Rightarrow> uint16_t option" where
  "table_at t i =
     (if 0 \<le>s i \<and> nat (sint i) < length t then Some (t ! nat (sint i)) else None)"

text \<open>
  \<^verbatim>\<open>x->a[0] = gamma_tables[0][a0]; x->a[1] = gamma_tables[0][a1]; x->a[2] = gamma_tables[0][a2];\<close>
  All three cells of \<^verbatim>\<open>*x\<close> are overwritten, so the function returns the new color.
\<close>

definition kc_set8g :: "gamma_tables \<Rightarrow> int32_t \<Rightarrow> int32_t \<Rightarrow> int32_t \<Rightarrow> kcolor option" where
  "kc_set8g g c0 c1 c2 =
     (case table_at (gt_fwd g) c0 of None \<Rightarrow> None | Some v0 \<Rightarrow>
      (case table_at (gt_fwd g) c1 of None \<Rightarrow> None | Some v1 \<Rightarrow>
       (case table_at (gt_fwd g) c2 of None \<Rightarrow> None | Some v2 \<Rightarrow>
          Some \<lparr>a0 = v0, a1 = v1, a2 = v2\<rparr>)))"

subsection \<open>Reverse gamma transformation\<close>

text \<open>
  The probing loop of \<^verbatim>\<open>kc_revgamma_transform\<close> for one component \<open>xd = x->a[d]\<close>:
  \<^verbatim>\<open>while (c < 0x7F80 && x->a[d] >= gamma_tables[0][(c + 0x80) >> 7]) c += 0x80;\<close>
  \<open>c\<close> is an \<^verbatim>\<open>int\<close>; the comparison promotes the \<^verbatim>\<open>int16_t\<close> cell (sign
  extension) and the \<^verbatim>\<open>uint16_t\<close> table entry (zero extension) to \<^verbatim>\<open>int\<close>.
  The result is the value of \<open>c\<close> when the loop exits.
\<close>

function revgamma_probe :: "uint16_t list \<Rightarrow> int16_t \<Rightarrow> int32_t \<Rightarrow> int32_t option" where
  "revgamma_probe fwd xd c =
     (if c <s 0x7F80 then
        (case table_at fwd (signed_drop_bit 7 (c + 0x80)) of
           None \<Rightarrow> None
         | Some v \<Rightarrow>
             if (ucast v :: int32_t) \<le>s scast xd then revgamma_probe fwd xd (c + 0x80)
             else Some c)
      else Some c)"
  by pat_completeness auto
termination revgamma_probe
proof (relation "measure (\<lambda>(fwd, xd, c). nat (0x7F80 - sint c))")
  show "wf (measure (\<lambda>(fwd, xd, c). nat (0x7F80 - sint c)))" by simp
next
  fix fwd :: "uint16_t list" and xd :: int16_t and c :: int32_t
  assume "c <s 0x7F80"
  then have lt: "sint c < 0x7F80" by (simp add: word_sless_alt)
  have "- (2 ^ 31) \<le> sint c" using sint_ge [of c] by simp
  with lt have "sint (c + 0x80) = sint c + 0x80"
    by (simp add: sint_word_add signed_take_bit_int_eq_self)
  with lt show "((fwd, xd, c + 0x80), (fwd, xd, c))
      \<in> measure (\<lambda>(fwd, xd, c). nat (0x7F80 - sint c))"
    by simp
qed

text \<open>
  The number of times the loop above executes its body \<^verbatim>\<open>c += 0x80\<close>: the same guard,
  counting one for every iteration.
\<close>

function revgamma_iters :: "uint16_t list \<Rightarrow> int16_t \<Rightarrow> int32_t \<Rightarrow> nat" where
  "revgamma_iters fwd xd c =
     (if c <s 0x7F80 then
        (case table_at fwd (signed_drop_bit 7 (c + 0x80)) of
           None \<Rightarrow> 0
         | Some v \<Rightarrow>
             if (ucast v :: int32_t) \<le>s scast xd then Suc (revgamma_iters fwd xd (c + 0x80))
             else 0)
      else 0)"
  by pat_completeness auto
termination
proof (relation "measure (\<lambda>(fwd, xd, c). nat (0x7F80 - sint c))")
  show "wf (measure (\<lambda>(fwd, xd, c). nat (0x7F80 - sint c)))" by simp
next
  fix fwd :: "uint16_t list" and xd :: int16_t and c :: int32_t
  assume "c <s 0x7F80"
  then have lt: "sint c < 0x7F80" by (simp add: word_sless_alt)
  have "- (2 ^ 31) \<le> sint c" using sint_ge [of c] by simp
  with lt have "sint (c + 0x80) = sint c + 0x80"
    by (simp add: sint_word_add signed_take_bit_int_eq_self)
  with lt show "((fwd, xd, c + 0x80), (fwd, xd, c))
      \<in> measure (\<lambda>(fwd, xd, c). nat (0x7F80 - sint c))"
    by simp
qed

declare revgamma_probe.simps [simp del] revgamma_iters.simps [simp del]

text \<open>
  One round of the \<^verbatim>\<open>for\<close> loop of \<^verbatim>\<open>kc_revgamma_transform\<close>:
  \<^verbatim>\<open>int c = gamma_tables[1][x->a[d] >> 7]; while (...) c += 0x80; x->a[d] = c;\<close>
  The shift of the promoted cell is arithmetic; the final store truncates the
  \<^verbatim>\<open>int\<close> to the 16-bit cell.
\<close>

definition revgamma_component :: "gamma_tables \<Rightarrow> int16_t \<Rightarrow> int16_t option" where
  "revgamma_component g xd =
     (case table_at (gt_rev g) (signed_drop_bit 7 (scast xd)) of
        None \<Rightarrow> None
      | Some r \<Rightarrow>
          (case revgamma_probe (gt_fwd g) xd (ucast r) of
             None \<Rightarrow> None
           | Some c \<Rightarrow> Some (ucast c)))"

text \<open>\<^verbatim>\<open>for (d = 0; d != 3; ++d) { ... }\<close>: the three rounds, in order.\<close>

definition kc_revgamma_transform :: "gamma_tables \<Rightarrow> kcolor \<Rightarrow> kcolor option" where
  "kc_revgamma_transform g x =
     (case revgamma_component g (a0 x) of None \<Rightarrow> None | Some c0 \<Rightarrow>
      (case revgamma_component g (a1 x) of None \<Rightarrow> None | Some c1 \<Rightarrow>
       (case revgamma_component g (a2 x) of None \<Rightarrow> None | Some c2 \<Rightarrow>
          Some \<lparr>a0 = c0, a1 = c1, a2 = c2\<rparr>)))"

text \<open>
  The vocabulary of the statement about the reverse transformation. The tables are
  \<open>gamma_tables_ok\<close> when both have 256 entries and the forward table is non-decreasing.
  \<open>revgamma_estimate\<close> is the initial estimate \<^verbatim>\<open>gamma_tables[1][xd >> 7]\<close>;
  \<open>fwd_sample g c\<close> is the forward-gamma equivalent of the 15-bit value \<open>c\<close> sampled at
  128-unit granularity, \<^verbatim>\<open>gamma_tables[0][c >> 7]\<close>. \<open>revgamma_pre\<close> says that the
  component is not negative and that the initial estimate is a 15-bit value whose
  forward sample does not exceed the component. \<open>revgamma_largest g xd c\<close> says that \<open>c\<close>
  is the largest 15-bit value among estimate, estimate + 128, estimate + 256, ... whose
  forward sample does not exceed \<open>xd\<close>.
\<close>

definition gamma_tables_ok :: "gamma_tables \<Rightarrow> bool" where
  "gamma_tables_ok g \<longleftrightarrow>
     length (gt_fwd g) = 256 \<and> length (gt_rev g) = 256 \<and> sorted (gt_fwd g)"

definition revgamma_estimate :: "gamma_tables \<Rightarrow> int16_t \<Rightarrow> int" where
  "revgamma_estimate g xd = uint (gt_rev g ! nat (sint xd div 128))"

definition fwd_sample :: "gamma_tables \<Rightarrow> int \<Rightarrow> int" where
  "fwd_sample g c = uint (gt_fwd g ! nat (c div 128))"

definition revgamma_pre :: "gamma_tables \<Rightarrow> int16_t \<Rightarrow> bool" where
  "revgamma_pre g xd \<longleftrightarrow>
     0 \<le> sint xd \<and> revgamma_estimate g xd \<le> 0x7FFF
     \<and> fwd_sample g (revgamma_estimate g xd) \<le> sint xd"

definition revgamma_largest :: "gamma_tables \<Rightarrow> int16_t \<Rightarrow> int16_t \<Rightarrow> bool" where
  "revgamma_largest g xd c \<longleftrightarrow>
     (\<exists>k \<in> {0..<256::nat}. sint c = revgamma_estimate g xd + 128 * int k)
     \<and> 0 \<le> sint c
     \<and> fwd_sample g (sint c) \<le> sint xd
     \<and> (\<forall>k \<in> {0..<256::nat}.
          revgamma_estimate g xd + 128 * int k \<le> 0x7FFF
          \<and> fwd_sample g (revgamma_estimate g xd + 128 * int k) \<le> sint xd
          \<longrightarrow> revgamma_estimate g xd + 128 * int k \<le> sint c)"

subsection \<open>Luminance\<close>

text \<open>
  \<^verbatim>\<open>return (306 * x->a[0] + 601 * x->a[1] + 117 * x->a[2]) >> 10;\<close>
  computed in \<^verbatim>\<open>int\<close>, with an arithmetic shift.
\<close>

definition kc_luminance :: "kcolor \<Rightarrow> int32_t" where
  "kc_luminance x =
     signed_drop_bit 10 (306 * scast (a0 x) + 601 * scast (a1 x) + 117 * scast (a2 x))"

text \<open>
  \<^verbatim>\<open>x->a[0] = x->a[1] = x->a[2] = kc_luminance(x);\<close>
  The \<^verbatim>\<open>int\<close> is truncated to the 16-bit cell \<^verbatim>\<open>a[2]\<close>, whose value is then stored
  in the other two cells.
\<close>

definition kc_luminance_transform :: "kcolor \<Rightarrow> kcolor" where
  "kc_luminance_transform x =
     (let l = (ucast (kc_luminance x) :: int16_t) in \<lparr>a0 = l, a1 = l, a2 = l\<rparr>)"

section \<open>kd3\_tree: the color index (kcolor.h)\<close>

text \<open>
  \<^verbatim>\<open>struct kd3_tree { kd3_treepos* tree; int ntree; int disabled; kcolor* ks; int nitems;
  int items_cap; int maxdepth; void (*transform)(kcolor*); unsigned* xradius; };\<close>
  \<^verbatim>\<open>kd3_treepos\<close> is an incomplete type in the header. The pointers \<^verbatim>\<open>transform\<close>
  and \<^verbatim>\<open>xradius\<close> may be null (\<open>None\<close>).
\<close>

typedecl kd3_treepos

record kd3_tree =
  tree :: "kd3_treepos list"
  ntree :: int32_t
  disabled :: int32_t
  ks :: "kcolor list"
  nitems :: int32_t
  items_cap :: int32_t
  maxdepth :: int32_t
  transform :: "(kcolor \<Rightarrow> kcolor) option"
  xradius :: "uint32_t list option"

text \<open>
  \<^verbatim>\<open>assert((unsigned) i < (unsigned) kd3->nitems);
  assert(kd3->disabled < 0 || kd3->disabled == i);
  kd3->disabled = i;\<close>
  A failed assertion aborts the program: \<open>None\<close>. The first comparison is unsigned
  (the order \<open><\<close> of words), the second signed.
\<close>

definition kd3_disable :: "kd3_tree \<Rightarrow> int32_t \<Rightarrow> kd3_tree option" where
  "kd3_disable kd3 i =
     (if \<not> i < nitems kd3 then None
      else if \<not> (disabled kd3 <s 0 \<or> disabled kd3 = i) then None
      else Some (kd3\<lparr>disabled := i\<rparr>))"

text \<open>\<^verbatim>\<open>kd3->disabled = -1;\<close>\<close>

definition kd3_enable_all :: "kd3_tree \<Rightarrow> kd3_tree" where
  "kd3_enable_all kd3 = kd3\<lparr>disabled := - 1\<rparr>"

text \<open>The valid part of the storage: \<^verbatim>\<open>ks[0]\<close> .. \<^verbatim>\<open>ks[nitems - 1]\<close>.\<close>

definition kd3_items :: "kd3_tree \<Rightarrow> kcolor list" where
  "kd3_items kd3 = take (nat (sint (nitems kd3))) (ks kd3)"

subsection \<open>Operations whose bodies are not in the header\<close>

text \<open>
  Modelled from the spec: the application of the optional transform of the index, which
  \<^verbatim>\<open>kd3_add8g\<close> and \<^verbatim>\<open>kd3_closest8g\<close> perform; their bodies are missing from the
  sources. Header comment and specification: the color is transformed by
  \<^verbatim>\<open>kd3->transform\<close> if one is configured (the pointer may be null), else left as it is.
\<close>

definition apply_transform :: "kd3_tree \<Rightarrow> kcolor \<Rightarrow> kcolor" where
  "apply_transform kd3 k = (case transform kd3 of None \<Rightarrow> k | Some f \<Rightarrow> f k)"

text \<open>
  Modelled from the spec: one step of the query \<^verbatim>\<open>kd3_closest_transformed\<close>, whose body
  is missing from the sources. Specification: the disabled index is skipped as if
  absent; the best candidate and its squared distance are maintained; of two
  equidistant colors the lowest index is picked. The step looks at index \<open>j\<close>: it skips
  the disabled index and replaces the best candidate only by a strictly nearer color.
\<close>

definition closest_step ::
  "kcolor list \<Rightarrow> int32_t \<Rightarrow> kcolor \<Rightarrow> nat \<Rightarrow> (nat \<times> uint32_t) option \<Rightarrow> (nat \<times> uint32_t) option"
where
  "closest_step cs dis k j best =
     (if int j = sint dis then best
      else (case best of
              None \<Rightarrow> Some (j, kc_distance (cs ! j) k)
            | Some (b, bd) \<Rightarrow>
                if kc_distance (cs ! j) k < bd then Some (j, kc_distance (cs ! j) k) else best))"

text \<open>
  Modelled from the spec: the search of \<^verbatim>\<open>kd3_closest_transformed\<close>, whose body is
  missing from the sources. Specification: the result of a query equals the nearest
  enabled color by exhaustive linear-scan comparison. The scan visits the indexes
  \<open>0, 1, ...\<close> in order, starting with no candidate.
\<close>

definition closest_scan :: "kcolor list \<Rightarrow> int32_t \<Rightarrow> kcolor \<Rightarrow> (nat \<times> uint32_t) option" where
  "closest_scan cs dis k = fold (closest_step cs dis k) [0..<length cs] None"

text \<open>
  Modelled from the spec: \<^verbatim>\<open>kd3_closest_transformed\<close> is declared in kcolor.h; its body
  and the layout of \<^verbatim>\<open>kd3_treepos\<close> are missing from the sources. The specification
  treats the partition tree as opaque and fixes the result of a query on the current
  colors and the disabled slot: the index that the scan above finds. With no enabled
  entry the model returns \<open>-1\<close>. The model answers in every state of the index; it does
  not consult the tree or the radii.
\<close>

definition kd3_closest_transformed :: "kd3_tree \<Rightarrow> kcolor \<Rightarrow> int32_t" where
  "kd3_closest_transformed kd3 k =
     (case closest_scan (kd3_items kd3) (disabled kd3) k of
        None \<Rightarrow> - 1
      | Some (b, bd) \<Rightarrow> of_nat b)"

text \<open>
  Modelled from the spec: \<^verbatim>\<open>kd3_closest8g\<close> is declared in kcolor.h without a body.
  Specification and header comment: gamma-encode the raw channels (\<open>kc_set8g\<close>), apply
  the transform of the index if there is one, and delegate to
  \<^verbatim>\<open>kd3_closest_transformed\<close>.
\<close>

definition kd3_closest8g ::
  "gamma_tables \<Rightarrow> kd3_tree \<Rightarrow> int32_t \<Rightarrow> int32_t \<Rightarrow> int32_t \<Rightarrow> int32_t option"
where
  "kd3_closest8g g kd3 c0 c1 c2 =
     (case kc_set8g g c0 c1 c2 of
        None \<Rightarrow> None
      | Some k \<Rightarrow> Some (kd3_closest_transformed kd3 (apply_transform kd3 k)))"

text \<open>
  Modelled from the spec: \<^verbatim>\<open>kd3_add_transformed\<close> is declared in kcolor.h without a
  body. Specification: append the color to the storage, growing the capacity as needed;
  the growth factor is not part of the contract, and the model grows the capacity to the
  new item count when the storage is full.
\<close>

definition kd3_add_transformed :: "kd3_tree \<Rightarrow> kcolor \<Rightarrow> kd3_tree" where
  "kd3_add_transformed kd3 k =
     kd3\<lparr>ks := kd3_items kd3 @ [k],
         nitems := nitems kd3 + 1,
         items_cap := (if nitems kd3 <s items_cap kd3 then items_cap kd3 else nitems kd3 + 1)\<rparr>"

text \<open>
  Modelled from the spec: \<^verbatim>\<open>kd3_add8g\<close> is declared in kcolor.h without a body.
  Specification and header comment: gamma-encode the raw channels (\<open>kc_set8g\<close>), apply
  the transform of the index if there is one, and insert the result.
\<close>

definition kd3_add8g ::
  "gamma_tables \<Rightarrow> kd3_tree \<Rightarrow> int32_t \<Rightarrow> int32_t \<Rightarrow> int32_t \<Rightarrow> kd3_tree option"
where
  "kd3_add8g g kd3 c0 c1 c2 =
     (case kc_set8g g c0 c1 c2 of
        None \<Rightarrow> None
      | Some k \<Rightarrow> Some (kd3_add_transformed kd3 (apply_transform kd3 k)))"

text \<open>
  Modelled from the spec: the exclusive radius of color \<open>i\<close>, which
  \<^verbatim>\<open>kd3_build_xradius\<close> computes; its body is missing from the sources. Header comment:
  \<^verbatim>\<open>xradius[i]\<close> is the square of the color's uniquely owned neighborhood.
  Specification: for every color the squared distance to its nearest other color is
  computed over all pairs, and the exclusive radius is derived from it as the bound of
  the sphere inscribed in the color's Voronoi cell; with no other color the radius is
  unbounded. The inscribed sphere has half the distance to the nearest other color as
  its radius, so the squared radius is a quarter of the squared distance (integer
  division), and the unbounded radius is the largest unsigned value.
\<close>

definition xradius_of :: "kcolor list \<Rightarrow> nat \<Rightarrow> uint32_t" where
  "xradius_of cs i =
     fold (\<lambda>j r. if j = i then r else min r (kc_distance (cs ! i) (cs ! j) div 4))
          [0..<length cs] (- 1)"

text \<open>
  Modelled from the spec: \<^verbatim>\<open>kd3_build_xradius\<close> is declared in kcolor.h without a body.
  Header comment: it sets \<^verbatim>\<open>kd3->xradius\<close>; the array holds the exclusive radius of
  every color of the index.
\<close>

definition kd3_build_xradius :: "kd3_tree \<Rightarrow> kd3_tree" where
  "kd3_build_xradius kd3 =
     kd3\<lparr>xradius := Some (map (xradius_of (kd3_items kd3)) [0..<length (kd3_items kd3)])\<rparr>"

subsection \<open>Vocabulary of the statements about queries\<close>

text \<open>
  \<open>nearest_enabled cs dis k r\<close>: the index \<open>r\<close> is not the disabled one, no enabled index
  is nearer to \<open>k\<close>, and among the enabled indexes at the same distance \<open>r\<close> is the lowest.
  \<open>clamp8\<close> is the clamping of a raw channel into \<open>[0, 255]\<close>; the header has no such
  function (\<open>KC_CLAMPV\<close> clamps into \<open>[0, KC_MAX]\<close>).
\<close>

definition nearest_enabled :: "kcolor list \<Rightarrow> int32_t \<Rightarrow> kcolor \<Rightarrow> nat \<Rightarrow> bool" where
  "nearest_enabled cs dis k r \<longleftrightarrow>
     r < length cs \<and> int r \<noteq> sint dis
     \<and> (\<forall>j \<in> {0..<length cs}. int j \<noteq> sint dis \<longrightarrow>
           kc_distance (cs ! r) k \<le> kc_distance (cs ! j) k
           \<and> (kc_distance (cs ! j) k = kc_distance (cs ! r) k \<longrightarrow> r \<le> j))"

definition clamp8 :: "int32_t \<Rightarrow> int32_t" where
  "clamp8 v = (if v <s 0 then 0 else if 255 <s v then 255 else v)"

section \<open>Example values\<close>

text \<open>
  Linear tables: entry \<open>j\<close> of both tables is \<open>128 * j\<close>. In \<open>gamma_ex_high\<close> every
  entry of the reverse table is \<open>0x4000\<close>.
\<close>

definition gamma_ex :: gamma_tables where
  "gamma_ex = \<lparr>gt_fwd = map (\<lambda>j. of_nat (128 * j)) [0..<256],
               gt_rev = map (\<lambda>j. of_nat (128 * j)) [0..<256]\<rparr>"

definition gamma_ex_high :: gamma_tables where
  "gamma_ex_high = \<lparr>gt_fwd = map (\<lambda>j. of_nat (128 * j)) [0..<256],
                    gt_rev = replicate 256 0x4000\<rparr>"

text \<open>The linear tables with a dip in the forward table: entry 2 is 0.\<close>

definition gamma_ex_dip :: gamma_tables where
  "gamma_ex_dip = \<lparr>gt_fwd = (map (\<lambda>j. of_nat (128 * j)) [0..<256])[2 := 0],
                   gt_rev = map (\<lambda>j. of_nat (128 * j)) [0..<256]\<rparr>"

text \<open>A three-color index with no disabled entry.\<close>

definition kd3_ex :: kd3_tree where
  "kd3_ex = \<lparr>tree = [], ntree = 0, disabled = - 1,
     ks = [\<lparr>a0 = 0, a1 = 0, a2 = 0\<rparr>, \<lparr>a0 = 32767, a1 = 32767, a2 = 32767\<rparr>,
           \<lparr>a0 = 32767, a1 = 0, a2 = 0\<rparr>],
     nitems = 3, items_cap = 4, maxdepth = 0, transform = None, xradius = None\<rparr>"

section \<open>Facts about 16-bit and 32-bit words\<close>

lemma sint16_le: "sint (w :: 16 word) \<le> 32767"
  using sint_lt [of w] by simp

lemma sint16_ge: "- 32768 \<le> sint (w :: 16 word)"
  using sint_ge [of w] by simp

lemma sint_scast_16_32: "sint (scast (w :: 16 word) :: 32 word) = sint w"
  by (simp add: sint_up_scast is_up)

lemma ucast_scast_16_32: "(ucast (scast (w :: 16 word) :: 32 word) :: 16 word) = w"
  by (rule bit_word_eqI) (auto simp add: bit_simps)

lemma scast_diff_32:
  "(scast (u :: 16 word) :: 32 word) - scast (v :: 16 word) = word_of_int (sint u - sint v)"
  by (simp only: scast_eq wi_hom_sub)

lemma sint_ucast_32_16:
  assumes "- 32768 \<le> sint (w :: 32 word)" and "sint w \<le> 32767"
  shows "sint (ucast w :: 16 word) = sint w"
proof -
  have "sint (ucast w :: 16 word) = signed_take_bit (LENGTH(16) - 1) (uint w)"
    by (simp only: ucast_eq sint_sbintrunc')
  also have "\<dots> = signed_take_bit 15 (take_bit 32 (sint w))"
    by (simp add: uint_sint)
  also have "\<dots> = signed_take_bit 15 (sint w)"
    by (simp add: signed_take_bit_take_bit)
  also have "\<dots> = sint w"
    using assms by (intro signed_take_bit_int_eq_self) simp_all
  finally show ?thesis .
qed

lemma uint_eq_sint_nonneg:
  assumes "0 \<le> sint (w :: 32 word)"
  shows "uint w = sint w"
proof -
  have "sint w < 2 ^ 32" using sint_lt [of w] by simp
  with assms have "take_bit 32 (sint w) = sint w"
    by (intro take_bit_int_eq_self) simp_all
  then show ?thesis by (simp add: uint_sint)
qed

lemma sint_eq_uint_small:
  assumes "uint (w :: 32 word) < 2 ^ 31"
  shows "sint w = uint w"
proof -
  have "- (2 ^ 31) \<le> (0 :: int)" by simp
  also have "0 \<le> uint w" by simp
  finally have "- (2 ^ 31) \<le> uint w" .
  with assms have "signed_take_bit 31 (uint w) = uint w"
    by (intro signed_take_bit_int_eq_self)
  then show ?thesis by (simp add: sint_uint)
qed

text \<open>
  For a non-negative bound \<open>n\<close>, the unsigned comparison \<^verbatim>\<open>(unsigned) i < (unsigned) n\<close>
  is the two-sided signed test \<^verbatim>\<open>0 <= i && i < n\<close>.
\<close>

lemma unsigned_less_iff_signed:
  assumes "0 \<le>s (n :: 32 word)"
  shows "i < n \<longleftrightarrow> 0 \<le>s i \<and> i <s n"
proof
  have n: "0 \<le> sint n" using assms by (simp add: word_sle_eq)
  have n31: "sint n < 2 ^ 31" using sint_lt [of n] by simp
  {
    assume "i < n"
    then have "uint i < sint n" using n by (simp add: word_less_def uint_eq_sint_nonneg)
    moreover from this n31 have "sint i = uint i" by (intro sint_eq_uint_small) linarith
    ultimately show "0 \<le>s i \<and> i <s n"
      by (simp add: word_sle_eq word_sless_alt)
  }
  {
    assume "0 \<le>s i \<and> i <s n"
    then have "0 \<le> sint i" and "sint i < sint n"
      by (simp_all add: word_sle_eq word_sless_alt)
    then show "i < n" using n by (simp add: word_less_def uint_eq_sint_nonneg)
  }
qed

section \<open>The squared distance\<close>

lemma kc_distance_word_of_int:
  "kc_distance x y = word_of_int ((sint (a0 x) - sint (a0 y))\<^sup>2
      + (sint (a1 x) - sint (a1 y))\<^sup>2 + (sint (a2 x) - sint (a2 y))\<^sup>2)"
  by (simp only: kc_distance_def Let_def scast_diff_32 wi_hom_mult wi_hom_add power2_eq_square)

lemma sq_bound: "\<bar>d\<bar> \<le> (32767::int) \<Longrightarrow> d\<^sup>2 \<le> 1073676289"
proof -
  assume "\<bar>d\<bar> \<le> 32767"
  then have "\<bar>d\<bar>\<^sup>2 \<le> 32767\<^sup>2" by (rule power_mono) simp
  then show ?thesis by simp
qed

lemma diff_bound:
  "0 \<le> sint (u :: 16 word) \<Longrightarrow> 0 \<le> sint (v :: 16 word) \<Longrightarrow> \<bar>sint u - sint v\<bar> \<le> 32767"
  using sint16_le [of u] sint16_le [of v] by linarith

lemma kc_distance_inrange:
  assumes "kc_inrange x" and "kc_inrange y"
  shows "\<bar>sint (a0 x) - sint (a0 y)\<bar> \<le> 32767 \<and> \<bar>sint (a1 x) - sint (a1 y)\<bar> \<le> 32767
       \<and> \<bar>sint (a2 x) - sint (a2 y)\<bar> \<le> 32767
       \<and> (sint (a0 x) - sint (a0 y))\<^sup>2 + (sint (a1 x) - sint (a1 y))\<^sup>2
            + (sint (a2 x) - sint (a2 y))\<^sup>2 < 2 ^ 32
       \<and> uint (kc_distance x y) = (sint (a0 x) - sint (a0 y))\<^sup>2
            + (sint (a1 x) - sint (a1 y))\<^sup>2 + (sint (a2 x) - sint (a2 y))\<^sup>2"
proof -
  let ?d0 = "sint (a0 x) - sint (a0 y)"
  let ?d1 = "sint (a1 x) - sint (a1 y)"
  let ?d2 = "sint (a2 x) - sint (a2 y)"
  have b0: "\<bar>?d0\<bar> \<le> 32767" and b1: "\<bar>?d1\<bar> \<le> 32767" and b2: "\<bar>?d2\<bar> \<le> 32767"
    using assms by (simp_all add: kc_inrange_def diff_bound)
  have s: "?d0\<^sup>2 + ?d1\<^sup>2 + ?d2\<^sup>2 \<le> 3221028867"
    using sq_bound [OF b0] sq_bound [OF b1] sq_bound [OF b2] by linarith
  have nn: "0 \<le> ?d0\<^sup>2 + ?d1\<^sup>2 + ?d2\<^sup>2" by simp
  have "uint (kc_distance x y) = (?d0\<^sup>2 + ?d1\<^sup>2 + ?d2\<^sup>2) mod 2 ^ 32"
    by (simp only: kc_distance_word_of_int uint_word_of_int) simp
  also have "\<dots> = ?d0\<^sup>2 + ?d1\<^sup>2 + ?d2\<^sup>2"
    using s nn by (intro mod_pos_pos_trivial) simp_all
  finally show ?thesis using b0 b1 b2 s by simp
qed

text \<open>
  Claim C5. For colors whose components all lie in \<open>[0, 32767]\<close>, every per-component
  difference lies in \<open>[-32767, 32767]\<close>, the sum of the three squares (hence each square)
  is below \<open>2^32\<close>, and the 32-bit value that \<open>kc_distance\<close> returns, read as an unsigned
  number, is exactly \<open>(x0-y0)^2 + (x1-y1)^2 + (x2-y2)^2\<close>.
\<close>

theorem kc_distance_exact:
  assumes "kc_inrange x" and "kc_inrange y"
  shows "\<bar>sint (a0 x) - sint (a0 y)\<bar> \<le> 32767 \<and> \<bar>sint (a1 x) - sint (a1 y)\<bar> \<le> 32767
       \<and> \<bar>sint (a2 x) - sint (a2 y)\<bar> \<le> 32767
       \<and> (sint (a0 x) - sint (a0 y))\<^sup>2 + (sint (a1 x) - sint (a1 y))\<^sup>2
            + (sint (a2 x) - sint (a2 y))\<^sup>2 < 2 ^ 32
       \<and> uint (kc_distance x y) = (sint (a0 x) - sint (a0 y))\<^sup>2
            + (sint (a1 x) - sint (a1 y))\<^sup>2 + (sint (a2 x) - sint (a2 y))\<^sup>2"
  using assms by (rule kc_distance_inrange)

theorem kc_distance_exact_witness:
  "kc_inrange \<lparr>a0 = 32767, a1 = 32767, a2 = 32767\<rparr> \<and> kc_inrange \<lparr>a0 = 0, a1 = 0, a2 = 0\<rparr>
   \<and> uint (kc_distance \<lparr>a0 = 32767, a1 = 32767, a2 = 32767\<rparr> \<lparr>a0 = 0, a1 = 0, a2 = 0\<rparr>)
       = 3221028867"
  using kc_distance_exact [of "\<lparr>a0 = 32767, a1 = 32767, a2 = 32767\<rparr>" "\<lparr>a0 = 0, a1 = 0, a2 = 0\<rparr>"]
  by (simp add: kc_inrange_def)

text \<open>
  Claim C8. The distance is symmetric, it is never negative (it is an unsigned 32-bit
  value), and the distance of a color to itself is zero. This holds for all cell values,
  in range or not.
\<close>

theorem kc_distance_symmetric:
  "kc_distance x y = kc_distance y x \<and> 0 \<le> uint (kc_distance x y) \<and> kc_distance x x = 0"
  by (simp add: kc_distance_def Let_def algebra_simps)

section \<open>Luminance\<close>

lemma luminance_gray: "kc_luminance \<lparr>a0 = l, a1 = l, a2 = l\<rparr> = scast l"
proof (rule signed_word_eqI)
  let ?s = "scast l :: 32 word"
  have sum: "306 * ?s + 601 * ?s + 117 * ?s = 1024 * ?s" by simp
  have "sint (1024 * ?s) = signed_take_bit 31 (1024 * sint l)"
    by (simp add: sint_word_mult sint_scast_16_32)
  also have "\<dots> = 1024 * sint l"
    using sint16_le [of l] sint16_ge [of l] by (intro signed_take_bit_int_eq_self) simp_all
  finally have "sint (signed_drop_bit 10 (1024 * ?s)) = sint l"
    by (simp add: sint_signed_drop_bit_eq drop_bit_eq_div)
  then show "sint (kc_luminance \<lparr>a0 = l, a1 = l, a2 = l\<rparr>) = sint ?s"
    by (simp add: kc_luminance_def sum sint_scast_16_32)
qed

lemma luminance_sint:
  "sint (kc_luminance x) = (306 * sint (a0 x) + 601 * sint (a1 x) + 117 * sint (a2 x)) div 1024"
proof -
  let ?k = "306 * sint (a0 x) + 601 * sint (a1 x) + 117 * sint (a2 x)"
  have w: "306 * (scast (a0 x) :: 32 word) + 601 * scast (a1 x) + 117 * scast (a2 x)
      = word_of_int ?k"
    by (simp only: scast_eq wi_hom_mult [symmetric] wi_hom_add [symmetric] word_of_int_numeral)
  have "sint (word_of_int ?k :: 32 word) = signed_take_bit (LENGTH(32) - 1) ?k"
    by (rule sint_sbintrunc')
  also have "\<dots> = ?k"
    using sint16_le [of "a0 x"] sint16_ge [of "a0 x"] sint16_le [of "a1 x"] sint16_ge [of "a1 x"]
      sint16_le [of "a2 x"] sint16_ge [of "a2 x"]
    by (intro signed_take_bit_int_eq_self) simp_all
  finally show ?thesis
    by (simp only: kc_luminance_def w sint_signed_drop_bit_eq drop_bit_eq_div) simp
qed

lemma luminance_range:
  assumes "kc_inrange x"
  shows "0 \<le> sint (kc_luminance x)" and "sint (kc_luminance x) \<le> 32767"
proof -
  let ?k = "306 * sint (a0 x) + 601 * sint (a1 x) + 117 * sint (a2 x)"
  have "0 \<le> ?k" and "?k \<le> 1024 * 32767"
    using assms sint16_le [of "a0 x"] sint16_le [of "a1 x"] sint16_le [of "a2 x"]
    by (simp_all add: kc_inrange_def)
  then have "0 \<le> ?k div 1024" and "?k div 1024 \<le> 32767" by linarith+
  then show "0 \<le> sint (kc_luminance x)" and "sint (kc_luminance x) \<le> 32767"
    by (simp_all only: luminance_sint)
qed

lemma luminance_transform_inrange:
  assumes "kc_inrange x"
  shows "kc_inrange (kc_luminance_transform x)"
  using luminance_range [OF assms]
  by (simp add: kc_inrange_def kc_luminance_transform_def Let_def sint_ucast_32_16)

lemma luminance_transform_gray:
  "kc_luminance (kc_luminance_transform x) = scast (a0 (kc_luminance_transform x))"
  by (simp add: kc_luminance_transform_def Let_def luminance_gray)

lemma distance_gray:
  "kc_distance (kc_luminance_transform x) (kc_luminance_transform y)
     = 3 * (kc_luminance (kc_luminance_transform x) - kc_luminance (kc_luminance_transform y))\<^sup>2"
  by (simp add: luminance_transform_gray)
     (simp add: kc_distance_def kc_luminance_transform_def Let_def power2_eq_square)

text \<open>
  Claim C9. Applying \<open>kc_luminance_transform\<close> twice gives the same color as applying it
  once, and the luminance of a gray color \<open>(L, L, L)\<close> is \<open>L\<close>. Both hold for every cell
  value, so in particular for components in \<open>[0, 32767]\<close>.
\<close>

theorem kc_luminance_transform_idempotent:
  "kc_luminance_transform (kc_luminance_transform x) = kc_luminance_transform x
   \<and> kc_luminance \<lparr>a0 = l, a1 = l, a2 = l\<rparr> = scast l"
  by (simp add: kc_luminance_transform_def Let_def luminance_gray ucast_scast_16_32)

text \<open>
  Claim C3, as stated, fails: for the collapsed colors of \<open>(100, 200, 300)\<close> and
  \<open>(0, 0, 0)\<close> the luminances are 181 and 0, the squared difference is 32761, and
  \<open>kc_distance\<close> is 98283.
\<close>

theorem luminance_distance_counterexample:
  "kc_distance (kc_luminance_transform \<lparr>a0 = 100, a1 = 200, a2 = 300\<rparr>)
               (kc_luminance_transform \<lparr>a0 = 0, a1 = 0, a2 = 0\<rparr>)
   \<noteq> (kc_luminance (kc_luminance_transform \<lparr>a0 = 100, a1 = 200, a2 = 300\<rparr>)
      - kc_luminance (kc_luminance_transform \<lparr>a0 = 0, a1 = 0, a2 = 0\<rparr>))\<^sup>2"
  by (simp add: kc_distance_def kc_luminance_transform_def kc_luminance_def Let_def)

text \<open>
  Claim C3, amended. After \<open>kc_luminance_transform\<close> the three components are equal, and
  the distance between two collapsed colors is three times the squared difference of their
  luminances (each of the three equal components contributes one square): as 32-bit values
  for all colors, and as exact integers when the colors are in range.
\<close>

theorem luminance_collapse_distance:
  "a0 (kc_luminance_transform x) = a1 (kc_luminance_transform x)
   \<and> a1 (kc_luminance_transform x) = a2 (kc_luminance_transform x)
   \<and> kc_distance (kc_luminance_transform x) (kc_luminance_transform y)
       = 3 * (kc_luminance (kc_luminance_transform x) - kc_luminance (kc_luminance_transform y))\<^sup>2
   \<and> (kc_inrange x \<and> kc_inrange y \<longrightarrow>
        uint (kc_distance (kc_luminance_transform x) (kc_luminance_transform y))
          = 3 * (sint (kc_luminance (kc_luminance_transform x))
                 - sint (kc_luminance (kc_luminance_transform y)))\<^sup>2)"
proof (intro conjI impI)
  show "a0 (kc_luminance_transform x) = a1 (kc_luminance_transform x)"
    and "a1 (kc_luminance_transform x) = a2 (kc_luminance_transform x)"
    by (simp_all add: kc_luminance_transform_def Let_def)
  show "kc_distance (kc_luminance_transform x) (kc_luminance_transform y)
       = 3 * (kc_luminance (kc_luminance_transform x) - kc_luminance (kc_luminance_transform y))\<^sup>2"
    by (rule distance_gray)
next
  assume r: "kc_inrange x \<and> kc_inrange y"
  let ?x = "kc_luminance_transform x" and ?y = "kc_luminance_transform y"
  have e: "a1 ?x = a0 ?x" "a2 ?x = a0 ?x" "a1 ?y = a0 ?y" "a2 ?y = a0 ?y"
    by (simp_all add: kc_luminance_transform_def Let_def)
  have "uint (kc_distance ?x ?y) = (sint (a0 ?x) - sint (a0 ?y))\<^sup>2
            + (sint (a1 ?x) - sint (a1 ?y))\<^sup>2 + (sint (a2 ?x) - sint (a2 ?y))\<^sup>2"
    using kc_distance_inrange [of ?x ?y] r by (simp add: luminance_transform_inrange)
  then show "uint (kc_distance ?x ?y)
      = 3 * (sint (kc_luminance ?x) - sint (kc_luminance ?y))\<^sup>2"
    by (simp add: e luminance_transform_gray sint_scast_16_32)
qed

theorem luminance_collapse_distance_witness:
  "kc_inrange \<lparr>a0 = 100, a1 = 200, a2 = 300\<rparr> \<and> kc_inrange \<lparr>a0 = 0, a1 = 0, a2 = 0\<rparr>
   \<and> uint (kc_distance (kc_luminance_transform \<lparr>a0 = 100, a1 = 200, a2 = 300\<rparr>)
                        (kc_luminance_transform \<lparr>a0 = 0, a1 = 0, a2 = 0\<rparr>)) = 3 * 181\<^sup>2"
  using luminance_collapse_distance [of "\<lparr>a0 = 100, a1 = 200, a2 = 300\<rparr>" "\<lparr>a0 = 0, a1 = 0, a2 = 0\<rparr>"]
  by (simp add: kc_inrange_def kc_luminance_transform_def kc_luminance_def Let_def)

section \<open>Disabling and enabling an index\<close>

text \<open>
  Claim C7. If \<open>0 \<le> i < nitems\<close> and no other index is disabled, both assertions of
  \<open>kd3_disable\<close> hold and the disabled slot becomes \<open>i\<close>; disabling the index that is
  already disabled leaves the state unchanged. If the index is out of range (for a
  non-negative item count) or another index is disabled, an assertion fails.
  \<open>kd3_enable_all\<close> only sets the disabled slot to \<open>-1\<close>, so that afterwards no index is
  disabled and every valid index can be disabled again.
\<close>

theorem kd3_disable_enable:
  "(0 \<le>s i \<and> i <s nitems kd3 \<and> (disabled kd3 <s 0 \<or> disabled kd3 = i)
      \<longrightarrow> kd3_disable kd3 i = Some (kd3\<lparr>disabled := i\<rparr>))
   \<and> (0 \<le>s i \<and> i <s nitems kd3 \<and> disabled kd3 = i \<longrightarrow> kd3_disable kd3 i = Some kd3)
   \<and> (0 \<le>s nitems kd3 \<and> \<not> (0 \<le>s i \<and> i <s nitems kd3) \<longrightarrow> kd3_disable kd3 i = None)
   \<and> (0 \<le>s disabled kd3 \<and> disabled kd3 \<noteq> i \<longrightarrow> kd3_disable kd3 i = None)
   \<and> kd3_enable_all kd3 = kd3\<lparr>disabled := - 1\<rparr>
   \<and> disabled (kd3_enable_all kd3) <s 0
   \<and> (0 \<le>s i \<and> i <s nitems kd3
        \<longrightarrow> kd3_disable (kd3_enable_all kd3) i = Some (kd3\<lparr>disabled := i\<rparr>))"
proof (intro conjI impI)
  assume p: "0 \<le>s i \<and> i <s nitems kd3 \<and> (disabled kd3 <s 0 \<or> disabled kd3 = i)"
  then have "0 \<le>s nitems kd3" by (simp add: word_sle_eq word_sless_alt)
  with p have "i < nitems kd3" by (simp add: unsigned_less_iff_signed)
  with p show "kd3_disable kd3 i = Some (kd3\<lparr>disabled := i\<rparr>)"
    by (simp add: kd3_disable_def)
next
  assume p: "0 \<le>s i \<and> i <s nitems kd3 \<and> disabled kd3 = i"
  then have "0 \<le>s nitems kd3" by (simp add: word_sle_eq word_sless_alt)
  with p have "i < nitems kd3" by (simp add: unsigned_less_iff_signed)
  with p show "kd3_disable kd3 i = Some kd3"
    by (simp add: kd3_disable_def)
next
  assume "0 \<le>s nitems kd3 \<and> \<not> (0 \<le>s i \<and> i <s nitems kd3)"
  then have "\<not> i < nitems kd3" by (simp add: unsigned_less_iff_signed)
  then show "kd3_disable kd3 i = None" by (simp add: kd3_disable_def)
next
  assume "0 \<le>s disabled kd3 \<and> disabled kd3 \<noteq> i"
  then have "\<not> (disabled kd3 <s 0 \<or> disabled kd3 = i)"
    by (simp add: word_sle_eq word_sless_alt)
  then show "kd3_disable kd3 i = None" by (simp add: kd3_disable_def)
next
  show "kd3_enable_all kd3 = kd3\<lparr>disabled := - 1\<rparr>" by (simp add: kd3_enable_all_def)
  show "disabled (kd3_enable_all kd3) <s 0" by (simp add: kd3_enable_all_def word_sless_alt)
next
  assume p: "0 \<le>s i \<and> i <s nitems kd3"
  then have "0 \<le>s nitems kd3" by (simp add: word_sle_eq word_sless_alt)
  with p have "i < nitems kd3" by (simp add: unsigned_less_iff_signed)
  then show "kd3_disable (kd3_enable_all kd3) i = Some (kd3\<lparr>disabled := i\<rparr>)"
    by (simp add: kd3_disable_def kd3_enable_all_def word_sless_alt)
qed

theorem kd3_disable_enable_witness:
  "kd3_disable kd3_ex 1 = Some (kd3_ex\<lparr>disabled := 1\<rparr>)
   \<and> kd3_disable (kd3_ex\<lparr>disabled := 1\<rparr>) 1 = Some (kd3_ex\<lparr>disabled := 1\<rparr>)
   \<and> kd3_disable kd3_ex 3 = None
   \<and> kd3_disable (kd3_ex\<lparr>disabled := 1\<rparr>) 2 = None
   \<and> kd3_disable (kd3_enable_all (kd3_ex\<lparr>disabled := 1\<rparr>)) 2 = Some (kd3_ex\<lparr>disabled := 2\<rparr>)"
  using kd3_disable_enable [of 1 kd3_ex] kd3_disable_enable [of 1 "kd3_ex\<lparr>disabled := 1\<rparr>"]
    kd3_disable_enable [of 3 kd3_ex] kd3_disable_enable [of 2 "kd3_ex\<lparr>disabled := 1\<rparr>"]
  by (simp add: kd3_ex_def word_sle_eq word_sless_alt)

section \<open>Gamma encoding of raw channels\<close>

lemma sint_KC_CLAMPV: "sint (KC_CLAMPV v) = max 0 (min 32767 (sint v))"
  by (simp add: KC_CLAMPV_def KC_MAX_def word_sless_alt)

text \<open>
  Claim C6, as stated, fails: with 256-entry tables the channel value 256 (or \<open>-1\<close>) makes
  \<open>kc_set8g\<close> read outside the forward table, while the clamped channel 255 reads entry
  255; the raw-channel entry points fail in the same way.
\<close>

theorem kc_set8g_no_clamp_counterexample:
  "kc_set8g gamma_ex 256 0 0 = None
   \<and> kc_set8g gamma_ex (clamp8 256) (clamp8 0) (clamp8 0) = Some \<lparr>a0 = 32640, a1 = 0, a2 = 0\<rparr>
   \<and> kc_set8g gamma_ex (- 1) 0 0 = None
   \<and> kd3_closest8g gamma_ex kd3_ex 256 0 0 = None
   \<and> kd3_add8g gamma_ex kd3_ex 256 0 0 = None"
  by (simp add: kc_set8g_def kd3_closest8g_def kd3_add8g_def table_at_def clamp8_def gamma_ex_def
      word_sle_eq word_sless_alt)

text \<open>
  Claim C6, amended. With a forward table of 256 entries, \<open>kc_set8g\<close> succeeds exactly
  when all three channels lie in \<open>[0, 255]\<close>, and then component \<open>d\<close> is
  \<^verbatim>\<open>gamma_tables[0][a_d]\<close>; a channel outside \<open>[0, 255]\<close> is not clamped but used as an
  index outside the table. \<open>kd3_add8g\<close> and \<open>kd3_closest8g\<close> fail exactly when \<open>kc_set8g\<close>
  does. \<open>KC_CLAMPV\<close> clamps into \<open>[0, 32767]\<close>, not into \<open>[0, 255]\<close>.
\<close>

theorem kc_set8g_in_table:
  assumes "length (gt_fwd g) = 256"
  shows "(kc_set8g g c0 c1 c2 \<noteq> None \<longleftrightarrow>
            0 \<le>s c0 \<and> c0 \<le>s 255 \<and> 0 \<le>s c1 \<and> c1 \<le>s 255 \<and> 0 \<le>s c2 \<and> c2 \<le>s 255)
       \<and> (0 \<le>s c0 \<and> c0 \<le>s 255 \<and> 0 \<le>s c1 \<and> c1 \<le>s 255 \<and> 0 \<le>s c2 \<and> c2 \<le>s 255 \<longrightarrow>
            kc_set8g g c0 c1 c2
              = Some \<lparr>a0 = gt_fwd g ! nat (sint c0), a1 = gt_fwd g ! nat (sint c1),
                       a2 = gt_fwd g ! nat (sint c2)\<rparr>)
       \<and> (kd3_add8g g kd3 c0 c1 c2 = None \<longleftrightarrow> kc_set8g g c0 c1 c2 = None)
       \<and> (kd3_closest8g g kd3 c0 c1 c2 = None \<longleftrightarrow> kc_set8g g c0 c1 c2 = None)
       \<and> sint (KC_CLAMPV v) = max 0 (min 32767 (sint v))"
proof -
  have t: "table_at (gt_fwd g) c = (if 0 \<le>s c \<and> c \<le>s 255 then Some (gt_fwd g ! nat (sint c)) else None)"
    for c
    using assms by (auto simp add: table_at_def word_sle_eq)
  show ?thesis
    by (auto simp add: kc_set8g_def kd3_add8g_def kd3_closest8g_def t sint_KC_CLAMPV)
qed

theorem kc_set8g_in_table_witness:
  "length (gt_fwd gamma_ex) = 256
   \<and> kc_set8g gamma_ex 250 10 10 = Some \<lparr>a0 = 32000, a1 = 1280, a2 = 1280\<rparr>
   \<and> kc_set8g gamma_ex 256 10 10 = None"
proof -
  have l: "length (gt_fwd gamma_ex) = 256" by (simp add: gamma_ex_def)
  from kc_set8g_in_table [OF l, of 250 10 10] kc_set8g_in_table [OF l, of 256 10 10] l
  show ?thesis by (simp add: word_sle_eq gamma_ex_def)
qed

section \<open>The reverse gamma transformation\<close>

lemma sint_add_0x80:
  assumes "sint (c :: 32 word) < 0x7F80"
  shows "sint (c + 0x80) = sint c + 128"
proof -
  have "- (2 ^ 31) \<le> sint c" using sint_ge [of c] by simp
  with assms show ?thesis
    by (simp add: sint_word_add signed_take_bit_int_eq_self)
qed

lemma sint_ucast_16_32: "sint (ucast (v :: 16 word) :: 32 word) = uint v"
proof -
  have "uint (ucast v :: 32 word) = uint v"
    by (simp add: uint_up_ucast is_up)
  moreover have "uint v < 2 ^ 16" using uint_lt2p [of v] by simp
  ultimately have "uint (ucast v :: 32 word) < 2 ^ 31" by simp
  then have "sint (ucast v :: 32 word) = uint (ucast v :: 32 word)" by (rule sint_eq_uint_small)
  then show ?thesis by (simp add: uint_up_ucast is_up)
qed

lemma table_at_Some:
  "0 \<le> sint i \<Longrightarrow> nat (sint i) < length t \<Longrightarrow> table_at t i = Some (t ! nat (sint i))"
  by (simp add: table_at_def word_sle_eq)

lemma sint_probe_index:
  assumes "sint (c :: 32 word) < 0x7F80"
  shows "sint (signed_drop_bit 7 (c + 0x80)) = (sint c + 128) div 128"
  by (simp add: sint_signed_drop_bit_eq drop_bit_eq_div sint_add_0x80 [OF assms])

lemma revgamma_iters_bound:
  "int (revgamma_iters fwd xd c) * 128 \<le> max 0 (0x7F80 + 127 - sint c)"
proof (induction fwd xd c rule: revgamma_iters.induct)
  case (1 fwd xd c)
  show ?case
  proof (cases "c <s 0x7F80")
    case False
    then show ?thesis by (subst revgamma_iters.simps) simp
  next
    case True
    then have lt: "sint c < 0x7F80" by (simp add: word_sless_alt)
    show ?thesis
    proof (cases "table_at fwd (signed_drop_bit 7 (c + 0x80))")
      case None
      with True show ?thesis by (subst revgamma_iters.simps) simp
    next
      case (Some v)
      show ?thesis
      proof (cases "(ucast v :: int32_t) \<le>s scast xd")
        case False
        with True Some show ?thesis by (subst revgamma_iters.simps) simp
      next
        case go: True
        have "int (revgamma_iters fwd xd (c + 0x80)) * 128 \<le> max 0 (0x7F80 + 127 - sint (c + 0x80))"
          using "1.IH" [OF True Some go] .
        then have "int (revgamma_iters fwd xd (c + 0x80)) * 128 \<le> max 0 (0x7F80 + 127 - (sint c + 128))"
          by (simp only: sint_add_0x80 [OF lt])
        moreover have "revgamma_iters fwd xd c = Suc (revgamma_iters fwd xd (c + 0x80))"
          using True Some go by (subst revgamma_iters.simps) simp
        ultimately show ?thesis using lt by simp
      qed
    qed
  qed
qed

lemma revgamma_iters_le_255: "revgamma_iters fwd xd (ucast (r :: 16 word)) \<le> 255"
proof -
  have "0 \<le> sint (ucast r :: 32 word)" by (simp add: sint_ucast_16_32)
  with revgamma_iters_bound [of fwd xd "ucast r"]
  have "int (revgamma_iters fwd xd (ucast r)) * 128 \<le> 0x7F80 + 127" by simp
  then show ?thesis by simp
qed

lemma revgamma_probe_steps:
  "revgamma_probe fwd xd c = Some r \<Longrightarrow> r = c + 0x80 * of_nat (revgamma_iters fwd xd c)"
proof (induction fwd xd c rule: revgamma_probe.induct)
  case (1 fwd xd c)
  show ?case
  proof (cases "c <s 0x7F80")
    case False
    with "1.prems" show ?thesis
      by (subst revgamma_iters.simps, subst (asm) revgamma_probe.simps) simp
  next
    case True
    show ?thesis
    proof (cases "table_at fwd (signed_drop_bit 7 (c + 0x80))")
      case None
      with True "1.prems" show ?thesis by (subst (asm) revgamma_probe.simps) simp
    next
      case (Some v)
      show ?thesis
      proof (cases "(ucast v :: int32_t) \<le>s scast xd")
        case False
        with True Some "1.prems" show ?thesis
          by (subst revgamma_iters.simps, subst (asm) revgamma_probe.simps) simp
      next
        case go: True
        have "revgamma_probe fwd xd (c + 0x80) = Some r"
          using "1.prems" True Some go by (subst (asm) revgamma_probe.simps) simp
        then have "r = c + 0x80 + 0x80 * of_nat (revgamma_iters fwd xd (c + 0x80))"
          using "1.IH" [OF True Some go] by simp
        moreover have "revgamma_iters fwd xd c = Suc (revgamma_iters fwd xd (c + 0x80))"
          using True Some go by (subst revgamma_iters.simps) simp
        ultimately show ?thesis by (simp add: algebra_simps)
      qed
    qed
  qed
qed

text \<open>What the probing loop returns, for a table of 256 entries and a start in \<open>0 .. 0x7FFF\<close>.\<close>

lemma revgamma_probe_result:
  assumes "length fwd = 256" and "0 \<le> sint c" and "sint c \<le> 0x7FFF"
  shows "\<exists>r. revgamma_probe fwd xd c = Some r \<and> sint r \<le> 0x7FFF
           \<and> (\<exists>k. sint r = sint c + 128 * int k)
           \<and> (sint r \<noteq> sint c \<longrightarrow> uint (fwd ! nat (sint r div 128)) \<le> sint xd)
           \<and> (sint r < 0x7F80 \<longrightarrow> sint xd < uint (fwd ! nat ((sint r + 128) div 128)))"
  using assms
proof (induction fwd xd c rule: revgamma_probe.induct)
  case (1 fwd xd c)
  show ?case
  proof (cases "c <s 0x7F80")
    case False
    then have "revgamma_probe fwd xd c = Some c" by (subst revgamma_probe.simps) simp
    moreover have "\<not> sint c < 0x7F80" using False by (simp add: word_sless_alt)
    ultimately show ?thesis using "1.prems" by simp
  next
    case True
    then have lt: "sint c < 0x7F80" by (simp add: word_sless_alt)
    let ?i = "signed_drop_bit 7 (c + 0x80) :: int32_t"
    have idx: "sint ?i = (sint c + 128) div 128" by (rule sint_probe_index [OF lt])
    have i0: "0 \<le> sint ?i" and i1: "nat (sint ?i) < length fwd"
      using lt "1.prems" by (simp_all add: idx)
    let ?v = "fwd ! nat ((sint c + 128) div 128)"
    have rd: "table_at fwd ?i = Some ?v"
      using table_at_Some [OF i0 i1] by (simp only: idx)
    show ?thesis
    proof (cases "(ucast ?v :: int32_t) \<le>s scast xd")
      case False
      then have "revgamma_probe fwd xd c = Some c"
        using True rd by (subst revgamma_probe.simps) simp
      moreover have "sint xd < uint ?v"
        using False by (simp add: word_sle_eq sint_ucast_16_32 sint_scast_16_32)
      ultimately show ?thesis using "1.prems" by simp
    next
      case go: True
      then have le: "uint ?v \<le> sint xd"
        by (simp add: word_sle_eq sint_ucast_16_32 sint_scast_16_32)
      have s: "sint (c + 0x80) = sint c + 128" by (rule sint_add_0x80 [OF lt])
      have eq: "revgamma_probe fwd xd c = revgamma_probe fwd xd (c + 0x80)"
        using True rd go by (subst revgamma_probe.simps) simp
      have "0 \<le> sint (c + 0x80)" and "sint (c + 0x80) \<le> 0x7FFF"
        using lt "1.prems" by (simp_all add: s)
      with "1.IH" [OF True rd go "1.prems"(1)]
      obtain r k where r: "revgamma_probe fwd xd (c + 0x80) = Some r" "sint r \<le> 0x7FFF"
        "sint r = sint (c + 0x80) + 128 * int k"
        "sint r \<noteq> sint (c + 0x80) \<longrightarrow> uint (fwd ! nat (sint r div 128)) \<le> sint xd"
        "sint r < 0x7F80 \<longrightarrow> sint xd < uint (fwd ! nat ((sint r + 128) div 128))"
        by blast
      have k: "sint r = sint c + 128 * int (Suc k)" using r(3) by (simp add: s)
      have "uint (fwd ! nat (sint r div 128)) \<le> sint xd"
      proof (cases "sint r = sint (c + 0x80)")
        case True
        then show ?thesis using le by (simp add: s)
      next
        case False
        then show ?thesis using r(4) by simp
      qed
      moreover have "revgamma_probe fwd xd c = Some r" using eq r(1) by simp
      moreover have "\<exists>k. sint r = sint c + 128 * int k" using k by blast
      ultimately show ?thesis using r(2,5) by blast
    qed
  qed
qed

lemma sint_rev_index:
  "sint (signed_drop_bit 7 (scast (xd :: 16 word) :: 32 word)) = sint xd div 128"
  by (simp add: sint_signed_drop_bit_eq drop_bit_eq_div sint_scast_16_32)

lemma fwd_sample_mono:
  assumes "gamma_tables_ok g" and "0 \<le> c" and "c \<le> c'" and "c' \<le> 0x7FFF"
  shows "fwd_sample g c \<le> fwd_sample g c'"
proof -
  have "nat (c div 128) \<le> nat (c' div 128)"
    using assms(2,3) by (simp add: zdiv_mono1)
  moreover have "nat (c' div 128) < length (gt_fwd g)"
    using assms by (simp add: gamma_tables_ok_def)
  moreover have "sorted (gt_fwd g)" using assms(1) by (simp add: gamma_tables_ok_def)
  ultimately have "gt_fwd g ! nat (c div 128) \<le> gt_fwd g ! nat (c' div 128)"
    by (simp add: sorted_nth_mono)
  then show ?thesis by (simp add: fwd_sample_def word_le_def)
qed

lemma revgamma_component_largest:
  assumes ok: "gamma_tables_ok g" and pre: "revgamma_pre g xd"
  shows "\<exists>c. revgamma_component g xd = Some c \<and> revgamma_largest g xd c"
proof -
  let ?e = "revgamma_estimate g xd"
  let ?r0 = "gt_rev g ! nat (sint xd div 128)"
  let ?i = "signed_drop_bit 7 (scast xd :: int32_t)"
  have x0: "0 \<le> sint xd" and e1: "?e \<le> 0x7FFF" and e2: "fwd_sample g ?e \<le> sint xd"
    using pre by (simp_all add: revgamma_pre_def)
  have e0: "0 \<le> ?e" by (simp add: revgamma_estimate_def)
  have len: "length (gt_fwd g) = 256" "length (gt_rev g) = 256"
    using ok by (simp_all add: gamma_tables_ok_def)
  have i0: "0 \<le> sint ?i" and i1: "nat (sint ?i) < length (gt_rev g)"
    using x0 sint16_le [of xd] by (simp_all add: sint_rev_index len)
  have rd: "table_at (gt_rev g) ?i = Some ?r0"
    using table_at_Some [OF i0 i1] by (simp only: sint_rev_index)
  have c0: "sint (ucast ?r0 :: int32_t) = ?e"
    by (simp add: sint_ucast_16_32 revgamma_estimate_def)
  obtain r k where r: "revgamma_probe (gt_fwd g) xd (ucast ?r0) = Some r" "sint r \<le> 0x7FFF"
      "sint r = ?e + 128 * int k"
      "sint r \<noteq> ?e \<longrightarrow> uint (gt_fwd g ! nat (sint r div 128)) \<le> sint xd"
      "sint r < 0x7F80 \<longrightarrow> sint xd < uint (gt_fwd g ! nat ((sint r + 128) div 128))"
  proof -
    have "0 \<le> sint (ucast ?r0 :: int32_t)" and "sint (ucast ?r0 :: int32_t) \<le> 0x7FFF"
      using e0 e1 by (simp_all only: c0)
    from revgamma_probe_result [OF len(1) this, of xd] show ?thesis
      unfolding c0 using that by blast
  qed
  let ?c = "ucast r :: int16_t"
  have r0: "0 \<le> sint r" using r(3) e0 by simp
  have sc: "sint ?c = sint r" using r0 r(2) by (intro sint_ucast_32_16) simp_all
  have res: "revgamma_component g xd = Some ?c"
    by (simp add: revgamma_component_def rd r(1))
  have k256: "k < 256" using r(2,3) e0 by simp
  have smp: "fwd_sample g (sint r) \<le> sint xd"
    using r(4) e2 by (cases "sint r = ?e") (simp_all add: fwd_sample_def)
  have mx: "?e + 128 * int k' \<le> sint r"
    if a: "?e + 128 * int k' \<le> 0x7FFF" and b: "fwd_sample g (?e + 128 * int k') \<le> sint xd"
    for k'
  proof (rule ccontr)
    assume "\<not> ?e + 128 * int k' \<le> sint r"
    then have gt: "sint r + 128 \<le> ?e + 128 * int k'" using r(3) by simp
    with a have "sint r < 0x7F80" by simp
    with r(5) have "sint xd < fwd_sample g (sint r + 128)" by (simp add: fwd_sample_def)
    also have "\<dots> \<le> fwd_sample g (?e + 128 * int k')"
      using ok r0 gt a by (intro fwd_sample_mono) simp_all
    finally show False using b by simp
  qed
  have "revgamma_largest g xd ?c"
    unfolding revgamma_largest_def sc
    using k256 r(3) r0 smp mx by auto
  with res show ?thesis by blast
qed

lemma upt_mono_sorted:
  assumes "\<And>i j. i \<le> j \<Longrightarrow> j < n \<Longrightarrow> f i \<le> f j"
  shows "sorted (map f [0..<n])"
  using assms by (simp add: sorted_iff_nth_mono)

lemma unat_linear_entry:
  assumes "i < 256"
  shows "unat (of_nat (128 * i) :: 16 word) = 128 * i"
proof -
  have "128 * i < 2 ^ LENGTH(16)" using assms by simp
  then show ?thesis by (simp only: unat_of_nat mod_less)
qed

lemma linear_table_sorted: "sorted (map (\<lambda>j. of_nat (128 * j) :: 16 word) [0..<256])"
proof (rule upt_mono_sorted)
  fix i j :: nat
  assume "i \<le> j" and "j < 256"
  then have "unat (of_nat (128 * i) :: 16 word) \<le> unat (of_nat (128 * j) :: 16 word)"
    by (simp only: unat_linear_entry)
  then show "(of_nat (128 * i) :: 16 word) \<le> of_nat (128 * j)"
    by (simp only: word_le_nat_alt)
qed

lemma gamma_ex_ok: "gamma_tables_ok gamma_ex"
  unfolding gamma_tables_ok_def gamma_ex_def using linear_table_sorted by simp

lemma revgamma_probe_total:
  assumes "length fwd = 256" and "0 \<le> sint c"
  shows "\<exists>r. revgamma_probe fwd xd c = Some r"
  using assms
proof (induction fwd xd c rule: revgamma_probe.induct)
  case (1 fwd xd c)
  show ?case
  proof (cases "c <s 0x7F80")
    case False
    then show ?thesis by (subst revgamma_probe.simps) simp
  next
    case True
    then have lt: "sint c < 0x7F80" by (simp add: word_sless_alt)
    let ?i = "signed_drop_bit 7 (c + 0x80) :: int32_t"
    have idx: "sint ?i = (sint c + 128) div 128" by (rule sint_probe_index [OF lt])
    have i0: "0 \<le> sint ?i" and i1: "nat (sint ?i) < length fwd"
      using lt "1.prems" by (simp_all add: idx)
    let ?v = "fwd ! nat (sint ?i)"
    have rd: "table_at fwd ?i = Some ?v" by (rule table_at_Some [OF i0 i1])
    show ?thesis
    proof (cases "(ucast ?v :: int32_t) \<le>s scast xd")
      case False
      then show ?thesis using True rd by (subst revgamma_probe.simps) simp
    next
      case go: True
      have "0 \<le> sint (c + 0x80)" using "1.prems"(2) by (simp add: sint_add_0x80 [OF lt])
      then have "\<exists>r. revgamma_probe fwd xd (c + 0x80) = Some r"
        using "1.IH" [OF True rd go "1.prems"(1)] by simp
      then show ?thesis using True rd go by (subst revgamma_probe.simps) simp
    qed
  qed
qed

lemma revgamma_component_total:
  assumes "length (gt_fwd g) = 256" and "length (gt_rev g) = 256" and "0 \<le> sint xd"
  shows "\<exists>c. revgamma_component g xd = Some c"
proof -
  let ?i = "signed_drop_bit 7 (scast xd :: int32_t)"
  have i0: "0 \<le> sint ?i" and i1: "nat (sint ?i) < length (gt_rev g)"
    using assms(2,3) sint16_le [of xd] by (simp_all add: sint_rev_index)
  let ?r0 = "gt_rev g ! nat (sint ?i)"
  have rd: "table_at (gt_rev g) ?i = Some ?r0" by (rule table_at_Some [OF i0 i1])
  have "0 \<le> sint (ucast ?r0 :: int32_t)" by (simp only: sint_ucast_16_32) simp
  from revgamma_probe_total [OF assms(1) this, of xd]
  obtain r where "revgamma_probe (gt_fwd g) xd (ucast ?r0) = Some r" by blast
  then show ?thesis by (simp add: revgamma_component_def rd)
qed

lemma kc_revgamma_transform_total:
  assumes f: "length (gt_fwd g) = 256" and r: "length (gt_rev g) = 256" and x: "kc_inrange x"
  shows "\<exists>y. kc_revgamma_transform g x = Some y"
proof -
  have x0: "0 \<le> sint (a0 x)" and x1: "0 \<le> sint (a1 x)" and x2: "0 \<le> sint (a2 x)"
    using x by (simp_all add: kc_inrange_def)
  obtain c0 where c0: "revgamma_component g (a0 x) = Some c0"
    using revgamma_component_total [OF f r x0] by blast
  obtain c1 where c1: "revgamma_component g (a1 x) = Some c1"
    using revgamma_component_total [OF f r x1] by blast
  obtain c2 where c2: "revgamma_component g (a2 x) = Some c2"
    using revgamma_component_total [OF f r x2] by blast
  show ?thesis by (simp add: kc_revgamma_transform_def c0 c1 c2)
qed


text \<open>
  Claim C10. The probing loop of \<open>kc_revgamma_transform\<close> is a total function (its
  termination is proved with the measure \<open>0x7F80 - c\<close>). Started from a table entry, it
  executes its body at most 255 times, whatever the tables hold; the value it returns is
  the start plus \<open>0x80\<close> per iteration; with 256-entry tables it returns a value, and so
  does the whole transformation on a color without negative components.
\<close>

theorem revgamma_iterations_bounded:
  "revgamma_iters fwd xd (ucast (r :: uint16_t)) \<le> 255
   \<and> (revgamma_probe fwd xd c = Some c' \<longrightarrow> c' = c + 0x80 * of_nat (revgamma_iters fwd xd c))
   \<and> (length fwd = 256 \<longrightarrow> (\<exists>c'. revgamma_probe fwd xd (ucast r) = Some c'))
   \<and> (length (gt_fwd g) = 256 \<and> length (gt_rev g) = 256 \<and> kc_inrange x
        \<longrightarrow> (\<exists>y. kc_revgamma_transform g x = Some y))"
proof (intro conjI impI)
  show "revgamma_iters fwd xd (ucast r) \<le> 255" by (rule revgamma_iters_le_255)
next
  assume "revgamma_probe fwd xd c = Some c'"
  then show "c' = c + 0x80 * of_nat (revgamma_iters fwd xd c)" by (rule revgamma_probe_steps)
next
  assume l: "length fwd = 256"
  have "0 \<le> sint (ucast r :: int32_t)" by (simp only: sint_ucast_16_32) simp
  from revgamma_probe_total [OF l this] show "\<exists>c'. revgamma_probe fwd xd (ucast r) = Some c'" .
next
  assume "length (gt_fwd g) = 256 \<and> length (gt_rev g) = 256 \<and> kc_inrange x"
  then show "\<exists>y. kc_revgamma_transform g x = Some y"
    by (simp add: kc_revgamma_transform_total)
qed

theorem revgamma_iterations_bounded_witness:
  "revgamma_probe (gt_fwd gamma_ex) 300 0 = Some 256
   \<and> revgamma_iters (gt_fwd gamma_ex) 300 0 = 2
   \<and> (256 :: int32_t) = 0 + 0x80 * of_nat (revgamma_iters (gt_fwd gamma_ex) 300 0)
   \<and> length (gt_fwd gamma_ex) = 256 \<and> length (gt_rev gamma_ex) = 256
   \<and> kc_inrange \<lparr>a0 = 300, a1 = 0, a2 = 200\<rparr>
   \<and> (\<exists>c'. revgamma_probe (gt_fwd gamma_ex) 300 (ucast (0 :: uint16_t)) = Some c')
   \<and> (\<exists>y. kc_revgamma_transform gamma_ex \<lparr>a0 = 300, a1 = 0, a2 = 200\<rparr> = Some y)"
proof -
  have p: "revgamma_probe (gt_fwd gamma_ex) 300 0 = Some 256"
    by (simp add: revgamma_probe.simps table_at_def gamma_ex_def word_sle_eq word_sless_alt)
  have i: "revgamma_iters (gt_fwd gamma_ex) 300 0 = 2"
    by (simp add: revgamma_iters.simps table_at_def gamma_ex_def word_sle_eq word_sless_alt)
  have l: "length (gt_fwd gamma_ex) = 256 \<and> length (gt_rev gamma_ex) = 256
      \<and> kc_inrange \<lparr>a0 = 300, a1 = 0, a2 = 200\<rparr>"
    by (simp add: gamma_ex_def kc_inrange_def)
  from revgamma_iterations_bounded
    [of "gt_fwd gamma_ex" 300 0 0 256 gamma_ex "\<lparr>a0 = 300, a1 = 0, a2 = 200\<rparr>"] p i l
  show ?thesis by simp
qed

text \<open>
  Claim C4, as stated, fails for tables whose reverse estimate is too high: with a linear
  forward table and a reverse table that is constantly \<open>0x4000\<close>, the color \<open>(0, 0, 0)\<close>
  is mapped to \<open>(0x4000, 0x4000, 0x4000)\<close>, whose forward sample 16384 exceeds the
  original component 0.
\<close>

theorem revgamma_not_largest_counterexample:
  "kc_revgamma_transform gamma_ex_high \<lparr>a0 = 0, a1 = 0, a2 = 0\<rparr>
     = Some \<lparr>a0 = 0x4000, a1 = 0x4000, a2 = 0x4000\<rparr>
   \<and> fwd_sample gamma_ex_high (sint (0x4000 :: int16_t)) = 16384
   \<and> \<not> revgamma_largest gamma_ex_high 0 0x4000"
proof -
  have "kc_revgamma_transform gamma_ex_high \<lparr>a0 = 0, a1 = 0, a2 = 0\<rparr>
     = Some \<lparr>a0 = 0x4000, a1 = 0x4000, a2 = 0x4000\<rparr>"
    by (simp add: kc_revgamma_transform_def revgamma_component_def revgamma_probe.simps
        table_at_def gamma_ex_high_def word_sle_eq word_sless_alt)
  moreover have "fwd_sample gamma_ex_high (sint (0x4000 :: int16_t)) = 16384"
    by (simp add: fwd_sample_def gamma_ex_high_def)
  moreover have "\<not> revgamma_largest gamma_ex_high 0 0x4000"
    by (simp add: revgamma_largest_def fwd_sample_def gamma_ex_high_def)
  ultimately show ?thesis by simp
qed

text \<open>
  The other hypotheses of the amended statement are needed as well. With a forward table
  that is not monotone the loop stops at the first failing probe although a later
  candidate is admissible: for the component 100 it returns 0, while the candidate 256 has
  the forward sample 0. A negative component reads outside the reverse table.
\<close>

lemma revgamma_needs_monotone_table:
  "revgamma_pre gamma_ex_dip 100
   \<and> kc_revgamma_transform gamma_ex_dip \<lparr>a0 = 100, a1 = 100, a2 = 100\<rparr>
       = Some \<lparr>a0 = 0, a1 = 0, a2 = 0\<rparr>
   \<and> fwd_sample gamma_ex_dip 256 = 0
   \<and> \<not> revgamma_largest gamma_ex_dip 100 0"
proof -
  have p: "revgamma_pre gamma_ex_dip 100"
    by (simp add: revgamma_pre_def revgamma_estimate_def fwd_sample_def gamma_ex_dip_def)
  have t: "kc_revgamma_transform gamma_ex_dip \<lparr>a0 = 100, a1 = 100, a2 = 100\<rparr>
       = Some \<lparr>a0 = 0, a1 = 0, a2 = 0\<rparr>"
    by (simp add: kc_revgamma_transform_def revgamma_component_def revgamma_probe.simps
        table_at_def gamma_ex_dip_def word_sle_eq word_sless_alt)
  have f: "fwd_sample gamma_ex_dip 256 = 0"
    by (simp add: fwd_sample_def gamma_ex_dip_def)
  have e: "revgamma_estimate gamma_ex_dip 100 = 0"
    by (simp add: revgamma_estimate_def gamma_ex_dip_def)
  have "\<not> revgamma_largest gamma_ex_dip 100 0"
  proof
    assume "revgamma_largest gamma_ex_dip 100 0"
    then have "\<forall>k \<in> {0..<256::nat}.
          revgamma_estimate gamma_ex_dip 100 + 128 * int k \<le> 0x7FFF
          \<and> fwd_sample gamma_ex_dip (revgamma_estimate gamma_ex_dip 100 + 128 * int k) \<le> sint (100 :: int16_t)
          \<longrightarrow> revgamma_estimate gamma_ex_dip 100 + 128 * int k \<le> sint (0 :: int16_t)"
      unfolding revgamma_largest_def by blast
    then have "revgamma_estimate gamma_ex_dip 100 + 128 * int 2 \<le> 0x7FFF
          \<and> fwd_sample gamma_ex_dip (revgamma_estimate gamma_ex_dip 100 + 128 * int 2) \<le> sint (100 :: int16_t)
          \<longrightarrow> revgamma_estimate gamma_ex_dip 100 + 128 * int 2 \<le> sint (0 :: int16_t)"
      by (rule bspec) simp
    then show False by (simp add: e f)
  qed
  with p t f show ?thesis by simp
qed

lemma revgamma_negative_component:
  "kc_revgamma_transform gamma_ex \<lparr>a0 = - 1, a1 = 0, a2 = 0\<rparr> = None"
  by (simp add: kc_revgamma_transform_def revgamma_component_def table_at_def gamma_ex_def
      word_sle_eq sint_signed_drop_bit_eq)

text \<open>
  Claim C4, amended. If both tables have 256 entries, the forward table is
  non-decreasing, no component of \<open>x\<close> is negative, and for each component the initial
  estimate \<^verbatim>\<open>gamma_tables[1][x.a[d] >> 7]\<close> is a 15-bit value whose forward sample does
  not exceed the component, then \<open>kc_revgamma_transform\<close> succeeds and sets each component
  to the largest 15-bit value among estimate, estimate + 128, estimate + 256, ... whose
  forward sample \<^verbatim>\<open>gamma_tables[0][c >> 7]\<close> does not exceed the original component.
\<close>

theorem revgamma_largest_probe:
  assumes ok: "gamma_tables_ok g"
    and p0: "revgamma_pre g (a0 x)" and p1: "revgamma_pre g (a1 x)" and p2: "revgamma_pre g (a2 x)"
  shows "\<exists>y. kc_revgamma_transform g x = Some y
           \<and> revgamma_largest g (a0 x) (a0 y) \<and> revgamma_largest g (a1 x) (a1 y)
           \<and> revgamma_largest g (a2 x) (a2 y)"
proof -
  obtain c0 where c0: "revgamma_component g (a0 x) = Some c0" "revgamma_largest g (a0 x) c0"
    using revgamma_component_largest [OF ok p0] by blast
  obtain c1 where c1: "revgamma_component g (a1 x) = Some c1" "revgamma_largest g (a1 x) c1"
    using revgamma_component_largest [OF ok p1] by blast
  obtain c2 where c2: "revgamma_component g (a2 x) = Some c2" "revgamma_largest g (a2 x) c2"
    using revgamma_component_largest [OF ok p2] by blast
  have "kc_revgamma_transform g x = Some \<lparr>a0 = c0, a1 = c1, a2 = c2\<rparr>"
    by (simp add: kc_revgamma_transform_def c0(1) c1(1) c2(1))
  with c0(2) c1(2) c2(2) show ?thesis by simp
qed

theorem revgamma_largest_probe_witness:
  "gamma_tables_ok gamma_ex
   \<and> revgamma_pre gamma_ex 300 \<and> revgamma_pre gamma_ex 0 \<and> revgamma_pre gamma_ex 200
   \<and> kc_revgamma_transform gamma_ex \<lparr>a0 = 300, a1 = 0, a2 = 200\<rparr>
        = Some \<lparr>a0 = 256, a1 = 0, a2 = 128\<rparr>
   \<and> revgamma_largest gamma_ex 300 256 \<and> revgamma_largest gamma_ex 0 0
   \<and> revgamma_largest gamma_ex 200 128"
proof -
  have ok: "gamma_tables_ok gamma_ex" by (rule gamma_ex_ok)
  have pre: "revgamma_pre gamma_ex 300" "revgamma_pre gamma_ex 0" "revgamma_pre gamma_ex 200"
    by (simp_all add: revgamma_pre_def revgamma_estimate_def fwd_sample_def gamma_ex_def)
  have ev: "kc_revgamma_transform gamma_ex \<lparr>a0 = 300, a1 = 0, a2 = 200\<rparr>
        = Some \<lparr>a0 = 256, a1 = 0, a2 = 128\<rparr>"
    by (simp add: kc_revgamma_transform_def revgamma_component_def revgamma_probe.simps
        table_at_def gamma_ex_def word_sle_eq word_sless_alt)
  from revgamma_largest_probe [of gamma_ex "\<lparr>a0 = 300, a1 = 0, a2 = 200\<rparr>"] ok pre ev
  show ?thesis by simp
qed

section \<open>Nearest-color queries\<close>

text \<open>The state of the scan after the indexes below \<open>n\<close>.\<close>

lemma closest_fold_Suc:
  "fold (closest_step cs dis k) [0..<Suc n] None
     = closest_step cs dis k n (fold (closest_step cs dis k) [0..<n] None)"
  by simp

lemma closest_fold_inv:
  "(case fold (closest_step cs dis k) [0..<n] None of
      None \<Rightarrow> \<forall>j<n. int j = sint dis
    | Some (b, bd) \<Rightarrow>
        b < n \<and> int b \<noteq> sint dis \<and> bd = kc_distance (cs ! b) k
        \<and> (\<forall>j<n. int j \<noteq> sint dis \<longrightarrow>
              bd \<le> kc_distance (cs ! j) k \<and> (kc_distance (cs ! j) k = bd \<longrightarrow> b \<le> j)))"
proof (induction n)
  case 0
  show ?case by simp
next
  case (Suc n)
  let ?prev = "fold (closest_step cs dis k) [0..<n] None"
  show ?case
  proof (cases "int n = sint dis")
    case True
    then have "closest_step cs dis k n ?prev = ?prev" by (simp add: closest_step_def)
    with Suc True show ?thesis
      by (auto simp add: closest_fold_Suc less_Suc_eq split: option.splits)
  next
    case False
    show ?thesis
    proof (cases ?prev)
      case None
      then have "closest_step cs dis k n ?prev = Some (n, kc_distance (cs ! n) k)"
        using False by (simp add: closest_step_def)
      with Suc None False show ?thesis
        by (auto simp add: closest_fold_Suc less_Suc_eq)
    next
      case (Some p)
      obtain b bd where p: "p = (b, bd)" by (cases p)
      from Suc Some p have inv: "b < n" "int b \<noteq> sint dis" "bd = kc_distance (cs ! b) k"
        "\<forall>j<n. int j \<noteq> sint dis \<longrightarrow>
              bd \<le> kc_distance (cs ! j) k \<and> (kc_distance (cs ! j) k = bd \<longrightarrow> b \<le> j)"
        by auto
      show ?thesis
      proof (cases "kc_distance (cs ! n) k < bd")
        case True
        then have st: "closest_step cs dis k n ?prev = Some (n, kc_distance (cs ! n) k)"
          using False Some p by (simp add: closest_step_def)
        have "\<forall>j<Suc n. int j \<noteq> sint dis \<longrightarrow>
              kc_distance (cs ! n) k \<le> kc_distance (cs ! j) k
              \<and> (kc_distance (cs ! j) k = kc_distance (cs ! n) k \<longrightarrow> n \<le> j)"
          using inv(4) True by (auto simp add: less_Suc_eq)
        with False show ?thesis by (simp add: closest_fold_Suc st)
      next
        case nl: False
        then have st: "closest_step cs dis k n ?prev = Some (b, bd)"
          using False Some p by (simp add: closest_step_def)
        have "\<forall>j<Suc n. int j \<noteq> sint dis \<longrightarrow>
              bd \<le> kc_distance (cs ! j) k \<and> (kc_distance (cs ! j) k = bd \<longrightarrow> b \<le> j)"
          using inv(1,4) nl by (auto simp add: less_Suc_eq)
        with inv(1,2,3) show ?thesis by (simp add: closest_fold_Suc st)
      qed
    qed
  qed
qed

lemma closest_scan_None:
  "closest_scan cs dis k = None \<longleftrightarrow> (\<forall>j<length cs. int j = sint dis)"
  using closest_fold_inv [where cs = cs and dis = dis and k = k and n = "length cs"]
  by (auto simp add: closest_scan_def split: option.splits)

lemma closest_scan_Some:
  assumes "closest_scan cs dis k = Some (b, bd)"
  shows "nearest_enabled cs dis k b" and "bd = kc_distance (cs ! b) k"
  using closest_fold_inv [where cs = cs and dis = dis and k = k and n = "length cs"] assms
  by (auto simp add: closest_scan_def nearest_enabled_def)

lemma nearest_enabled_unique:
  assumes "nearest_enabled cs dis k r" and "nearest_enabled cs dis k r'"
  shows "r = r'"
proof -
  have "kc_distance (cs ! r) k \<le> kc_distance (cs ! r') k"
    and "kc_distance (cs ! r') k \<le> kc_distance (cs ! r) k"
    using assms by (simp_all add: nearest_enabled_def)
  then have "kc_distance (cs ! r) k = kc_distance (cs ! r') k" by simp
  then have "r \<le> r'" and "r' \<le> r" using assms by (simp_all add: nearest_enabled_def)
  then show ?thesis by simp
qed

lemma length_kd3_items: "int (length (kd3_items kd3)) < 2147483648"
proof -
  have "length (kd3_items kd3) \<le> nat (sint (nitems kd3))" by (simp add: kd3_items_def)
  moreover have "sint (nitems kd3) < 2147483648" using sint_lt [of "nitems kd3"] by simp
  ultimately show ?thesis by linarith
qed

lemma sint_of_nat_index:
  assumes "b < length (kd3_items kd3)"
  shows "sint (of_nat b :: int32_t) = int b"
proof -
  have "int b < 2147483648" using assms length_kd3_items [of kd3] by linarith
  then have "int b < 2 ^ 31" by simp
  then have t: "signed_take_bit (LENGTH(32) - 1) (int b) = int b"
    by (intro signed_take_bit_int_eq_self) simp_all
  have "sint (word_of_int (int b) :: int32_t) = signed_take_bit (LENGTH(32) - 1) (int b)"
    by (rule sint_sbintrunc')
  then have "sint (word_of_int (int b) :: int32_t) = int b" by (simp only: t)
  then show ?thesis by simp
qed

lemma kd3_disable_Some:
  assumes "kd3_disable kd3 i = Some kd3'"
  shows "kd3' = kd3\<lparr>disabled := i\<rparr>" and "i < nitems kd3"
  using assms by (auto simp add: kd3_disable_def split: if_splits)

lemma closest_transformed_enabled:
  assumes "\<exists>j \<in> {0..<length (kd3_items kd3)}. int j \<noteq> sint (disabled kd3)"
  shows "\<exists>r. kd3_closest_transformed kd3 k = of_nat r
             \<and> nearest_enabled (kd3_items kd3) (disabled kd3) k r"
proof -
  from assms have "closest_scan (kd3_items kd3) (disabled kd3) k \<noteq> None"
    by (auto simp add: closest_scan_None)
  then obtain b bd where s: "closest_scan (kd3_items kd3) (disabled kd3) k = Some (b, bd)"
    by (cases "closest_scan (kd3_items kd3) (disabled kd3) k") auto
  then have "kd3_closest_transformed kd3 k = of_nat b"
    by (simp add: kd3_closest_transformed_def)
  with closest_scan_Some(1) [OF s] show ?thesis by blast
qed

lemma closest_transformed_none_enabled:
  assumes "\<forall>j \<in> {0..<length (kd3_items kd3)}. int j = sint (disabled kd3)"
  shows "kd3_closest_transformed kd3 k = - 1"
proof -
  from assms have "closest_scan (kd3_items kd3) (disabled kd3) k = None"
    by (simp add: closest_scan_None)
  then show ?thesis by (simp add: kd3_closest_transformed_def)
qed

lemma closest_transformed_not_disabled:
  assumes "disabled kd3 \<noteq> - 1"
  shows "kd3_closest_transformed kd3 k \<noteq> disabled kd3"
proof (cases "closest_scan (kd3_items kd3) (disabled kd3) k")
  case None
  then show ?thesis using assms by (simp add: kd3_closest_transformed_def)
next
  case (Some p)
  obtain b bd where p: "p = (b, bd)" by (cases p)
  with Some have s: "closest_scan (kd3_items kd3) (disabled kd3) k = Some (b, bd)" by simp
  from closest_scan_Some(1) [OF s]
  have b: "b < length (kd3_items kd3)" "int b \<noteq> sint (disabled kd3)"
    by (simp_all add: nearest_enabled_def)
  have "sint (of_nat b :: int32_t) = int b" by (rule sint_of_nat_index [OF b(1)])
  with b(2) have "(of_nat b :: int32_t) \<noteq> disabled kd3" by auto
  then show ?thesis using s by (simp add: kd3_closest_transformed_def)
qed

lemma less_not_minus_one: "(i :: int32_t) < n \<Longrightarrow> i \<noteq> - 1"
  by (metis word_order.extremum_strict)

text \<open>
  Claim C2. After a successful \<open>kd3_disable kd3 i\<close>, a query never returns \<open>i\<close>. If some
  index other than \<open>i\<close> exists, \<open>kd3_closest_transformed\<close> returns an index \<open>r \<noteq> i\<close> whose
  distance to the query is minimal over all indexes \<open>j \<noteq> i\<close> (the lowest such index when
  several are at that distance); if \<open>i\<close> is the only index, the result is \<open>-1\<close>. A result
  of \<open>kd3_closest8g\<close> is the result of \<open>kd3_closest_transformed\<close> on the gamma-encoded and
  transformed color, hence never \<open>i\<close> either. Disabling does not change the colors.
\<close>

theorem disabled_never_returned:
  assumes "kd3_disable kd3 i = Some kd3'"
  shows "kd3_closest_transformed kd3' k \<noteq> i
    \<and> ((\<exists>j \<in> {0..<length (kd3_items kd3')}. int j \<noteq> sint i) \<longrightarrow>
         (\<exists>r. kd3_closest_transformed kd3' k = of_nat r
              \<and> nearest_enabled (kd3_items kd3') i k r
              \<and> (\<forall>s. nearest_enabled (kd3_items kd3') i k s \<longrightarrow> s = r)))
    \<and> ((\<forall>j \<in> {0..<length (kd3_items kd3')}. int j = sint i) \<longrightarrow>
         kd3_closest_transformed kd3' k = - 1)
    \<and> (\<forall>r'. kd3_closest8g g kd3' c0 c1 c2 = Some r' \<longrightarrow>
          r' \<noteq> i \<and> (\<exists>k8. kc_set8g g c0 c1 c2 = Some k8
                        \<and> r' = kd3_closest_transformed kd3' (apply_transform kd3' k8)))
    \<and> kd3_items kd3' = kd3_items kd3"
proof -
  have d: "disabled kd3' = i" and n1: "i \<noteq> - 1"
    using kd3_disable_Some [OF assms] less_not_minus_one by auto
  have ne: "kd3_closest_transformed kd3' q \<noteq> i" for q
    using closest_transformed_not_disabled [of kd3' q] d n1 by simp
  have it: "kd3_items kd3' = kd3_items kd3"
    using kd3_disable_Some(1) [OF assms] by (simp add: kd3_items_def)
  have en: "(\<exists>j \<in> {0..<length (kd3_items kd3')}. int j \<noteq> sint i) \<longrightarrow>
         (\<exists>r. kd3_closest_transformed kd3' k = of_nat r
              \<and> nearest_enabled (kd3_items kd3') i k r
              \<and> (\<forall>s. nearest_enabled (kd3_items kd3') i k s \<longrightarrow> s = r))"
  proof
    assume "\<exists>j \<in> {0..<length (kd3_items kd3')}. int j \<noteq> sint i"
    with closest_transformed_enabled [of kd3' k] d
    obtain r where r: "kd3_closest_transformed kd3' k = of_nat r"
      "nearest_enabled (kd3_items kd3') i k r"
      by auto
    have "\<forall>s. nearest_enabled (kd3_items kd3') i k s \<longrightarrow> s = r"
      using nearest_enabled_unique [OF _ r(2)] by blast
    with r show "\<exists>r. kd3_closest_transformed kd3' k = of_nat r
              \<and> nearest_enabled (kd3_items kd3') i k r
              \<and> (\<forall>s. nearest_enabled (kd3_items kd3') i k s \<longrightarrow> s = r)"
      by blast
  qed
  have no: "(\<forall>j \<in> {0..<length (kd3_items kd3')}. int j = sint i) \<longrightarrow>
         kd3_closest_transformed kd3' k = - 1"
    using closest_transformed_none_enabled [of kd3' k] d by simp
  have c8: "\<forall>r'. kd3_closest8g g kd3' c0 c1 c2 = Some r' \<longrightarrow>
          r' \<noteq> i \<and> (\<exists>k8. kc_set8g g c0 c1 c2 = Some k8
                        \<and> r' = kd3_closest_transformed kd3' (apply_transform kd3' k8))"
    using ne by (auto simp add: kd3_closest8g_def split: option.splits)
  from ne [of k] en no c8 it show ?thesis by blast
qed

theorem disabled_never_returned_witness:
  "kd3_disable kd3_ex 2 = Some (kd3_ex\<lparr>disabled := 2\<rparr>)
   \<and> kd3_closest_transformed kd3_ex \<lparr>a0 = 30000, a1 = 100, a2 = 100\<rparr> = 2
   \<and> kd3_closest_transformed (kd3_ex\<lparr>disabled := 2\<rparr>) \<lparr>a0 = 30000, a1 = 100, a2 = 100\<rparr> = 0
   \<and> nearest_enabled (kd3_items (kd3_ex\<lparr>disabled := 2\<rparr>)) 2 \<lparr>a0 = 30000, a1 = 100, a2 = 100\<rparr> 0"
proof -
  have d: "kd3_disable kd3_ex 2 = Some (kd3_ex\<lparr>disabled := 2\<rparr>)"
    by (simp add: kd3_disable_def kd3_ex_def word_sless_alt)
  have a: "kd3_closest_transformed kd3_ex \<lparr>a0 = 30000, a1 = 100, a2 = 100\<rparr> = 2"
    by (simp add: kd3_closest_transformed_def closest_scan_def closest_step_def kd3_items_def
        kd3_ex_def kc_distance_def upt_conv_Cons)
  have b: "kd3_closest_transformed (kd3_ex\<lparr>disabled := 2\<rparr>) \<lparr>a0 = 30000, a1 = 100, a2 = 100\<rparr> = 0"
    by (simp add: kd3_closest_transformed_def closest_scan_def closest_step_def kd3_items_def
        kd3_ex_def kc_distance_def upt_conv_Cons)
  have e: "\<exists>j \<in> {0..<length (kd3_items (kd3_ex\<lparr>disabled := 2\<rparr>))}. int j \<noteq> sint (2 :: int32_t)"
    by (rule bexI [of _ 0]) (simp_all add: kd3_items_def kd3_ex_def)
  from disabled_never_returned [OF d, of "\<lparr>a0 = 30000, a1 = 100, a2 = 100\<rparr>"] e
  obtain r where r: "kd3_closest_transformed (kd3_ex\<lparr>disabled := 2\<rparr>) \<lparr>a0 = 30000, a1 = 100, a2 = 100\<rparr>
      = of_nat r"
    "nearest_enabled (kd3_items (kd3_ex\<lparr>disabled := 2\<rparr>)) 2 \<lparr>a0 = 30000, a1 = 100, a2 = 100\<rparr> r"
    by blast
  from r(2) have "r < 3" by (simp add: nearest_enabled_def kd3_items_def kd3_ex_def)
  with r(1) b have "r = 0"
    by (auto simp add: less_Suc_eq numeral_3_eq_3)
  with r(2) d a b show ?thesis by simp
qed

section \<open>The exclusive radius\<close>

text \<open>Cauchy-Schwarz in three dimensions, from Lagrange's identity.\<close>

lemma cauchy_schwarz3:
  fixes u1 u2 u3 v1 v2 v3 :: int
  shows "(u1 * v1 + u2 * v2 + u3 * v3)\<^sup>2 \<le> (u1\<^sup>2 + u2\<^sup>2 + u3\<^sup>2) * (v1\<^sup>2 + v2\<^sup>2 + v3\<^sup>2)"
proof -
  have "(u1\<^sup>2 + u2\<^sup>2 + u3\<^sup>2) * (v1\<^sup>2 + v2\<^sup>2 + v3\<^sup>2) - (u1 * v1 + u2 * v2 + u3 * v3)\<^sup>2
      = (u1 * v2 - u2 * v1)\<^sup>2 + (u1 * v3 - u3 * v1)\<^sup>2 + (u2 * v3 - u3 * v2)\<^sup>2"
    by (simp add: power2_eq_square algebra_simps)
  moreover have "0 \<le> (u1 * v2 - u2 * v1)\<^sup>2 + (u1 * v3 - u3 * v1)\<^sup>2 + (u2 * v3 - u3 * v2)\<^sup>2"
    by simp
  ultimately show ?thesis by linarith
qed

text \<open>
  A point \<open>q\<close> whose squared distance to \<open>p\<close> is less than a quarter of the squared
  distance between \<open>p\<close> and \<open>r\<close> is strictly nearer to \<open>p\<close> than to \<open>r\<close>. Here
  \<open>u = q - p\<close> and \<open>v = r - p\<close>.
\<close>

lemma inside_quarter_nearer:
  fixes u1 u2 u3 v1 v2 v3 :: int
  assumes "4 * (u1\<^sup>2 + u2\<^sup>2 + u3\<^sup>2) < v1\<^sup>2 + v2\<^sup>2 + v3\<^sup>2"
  shows "u1\<^sup>2 + u2\<^sup>2 + u3\<^sup>2 < (u1 - v1)\<^sup>2 + (u2 - v2)\<^sup>2 + (u3 - v3)\<^sup>2"
proof -
  define U where "U = u1\<^sup>2 + u2\<^sup>2 + u3\<^sup>2"
  define V where "V = v1\<^sup>2 + v2\<^sup>2 + v3\<^sup>2"
  define D where "D = u1 * v1 + u2 * v2 + u3 * v3"
  have U0: "0 \<le> U" by (simp add: U_def)
  have UV: "4 * U < V" using assms by (simp add: U_def V_def)
  then have V0: "0 < V" using U0 by linarith
  have cs: "D\<^sup>2 \<le> U * V" unfolding D_def U_def V_def by (rule cauchy_schwarz3)
  have ex: "(u1 - v1)\<^sup>2 + (u2 - v2)\<^sup>2 + (u3 - v3)\<^sup>2 = U - 2 * D + V"
    by (simp add: U_def V_def D_def power2_eq_square algebra_simps)
  have "2 * D < V"
  proof (rule ccontr)
    assume "\<not> 2 * D < V"
    then have le: "V \<le> 2 * D" by simp
    with V0 have "V * V \<le> (2 * D) * (2 * D)" by (intro mult_mono) simp_all
    also have "\<dots> = 4 * D\<^sup>2" by (simp add: power2_eq_square)
    also have "\<dots> \<le> 4 * (U * V)" using cs by simp
    also have "\<dots> = (4 * U) * V" by simp
    finally have "V * V \<le> (4 * U) * V" .
    with V0 have "V \<le> 4 * U" by (simp only: mult_le_cancel_right)
    with UV show False by simp
  qed
  then show ?thesis unfolding ex U_def [symmetric] by linarith
qed

lemma xradius_fold_le:
  "fold (\<lambda>j r. if j = i then r else min r (f j)) [0..<n] (a :: uint32_t) \<le> a
   \<and> (\<forall>j<n. j \<noteq> i \<longrightarrow> fold (\<lambda>j r. if j = i then r else min r (f j)) [0..<n] a \<le> f j)"
proof (induction n)
  case 0
  show ?case by simp
next
  case (Suc n)
  then show ?case by (auto simp add: less_Suc_eq min_le_iff_disj)
qed

lemma xradius_of_le:
  assumes "j < length cs" and "j \<noteq> i"
  shows "xradius_of cs i \<le> kc_distance (cs ! i) (cs ! j) div 4"
  using xradius_fold_le [of i "\<lambda>j. kc_distance (cs ! i) (cs ! j) div 4" "length cs" "- 1"] assms
  by (simp add: xradius_of_def)

lemma uint_kc_distance:
  assumes "kc_inrange x" and "kc_inrange y"
  shows "uint (kc_distance x y) = (sint (a0 x) - sint (a0 y))\<^sup>2
            + (sint (a1 x) - sint (a1 y))\<^sup>2 + (sint (a2 x) - sint (a2 y))\<^sup>2"
  using kc_distance_inrange [OF assms] by simp

text \<open>Inside the exclusive radius of \<open>p\<close>, the query is strictly nearer to \<open>p\<close> than to \<open>r\<close>.\<close>

lemma inside_xradius_nearer:
  assumes p: "kc_inrange p" and r: "kc_inrange r" and q: "kc_inrange q"
    and lt: "kc_distance p q < kc_distance p r div 4"
  shows "kc_distance p q < kc_distance r q"
proof -
  let ?u1 = "sint (a0 q) - sint (a0 p)" and ?u2 = "sint (a1 q) - sint (a1 p)"
    and ?u3 = "sint (a2 q) - sint (a2 p)"
  let ?v1 = "sint (a0 r) - sint (a0 p)" and ?v2 = "sint (a1 r) - sint (a1 p)"
    and ?v3 = "sint (a2 r) - sint (a2 p)"
  have pq: "uint (kc_distance p q) = ?u1\<^sup>2 + ?u2\<^sup>2 + ?u3\<^sup>2"
    by (simp add: uint_kc_distance [OF p q] power2_commute)
  have pr: "uint (kc_distance p r) = ?v1\<^sup>2 + ?v2\<^sup>2 + ?v3\<^sup>2"
    by (simp add: uint_kc_distance [OF p r] power2_commute)
  have rq: "uint (kc_distance r q) = (?u1 - ?v1)\<^sup>2 + (?u2 - ?v2)\<^sup>2 + (?u3 - ?v3)\<^sup>2"
    by (simp add: uint_kc_distance [OF r q] power2_commute)
  have "uint (kc_distance p q) < uint (kc_distance p r) div 4"
    using lt by (simp add: word_less_def uint_div)
  then have "4 * uint (kc_distance p q) < uint (kc_distance p r)" by linarith
  then have "4 * (?u1\<^sup>2 + ?u2\<^sup>2 + ?u3\<^sup>2) < ?v1\<^sup>2 + ?v2\<^sup>2 + ?v3\<^sup>2"
    by (simp only: pq pr)
  then have "?u1\<^sup>2 + ?u2\<^sup>2 + ?u3\<^sup>2 < (?u1 - ?v1)\<^sup>2 + (?u2 - ?v2)\<^sup>2 + (?u3 - ?v3)\<^sup>2"
    by (rule inside_quarter_nearer)
  then have "uint (kc_distance p q) < uint (kc_distance r q)" by (simp only: pq rq)
  then show ?thesis by (simp add: word_less_def)
qed


lemma kd3_items_build: "kd3_items (kd3_build_xradius kd3) = kd3_items kd3"
  by (simp add: kd3_build_xradius_def kd3_items_def)

lemma disabled_build: "disabled (kd3_build_xradius kd3) = disabled kd3"
  by (simp add: kd3_build_xradius_def)

lemma xradius_build:
  assumes "xradius (kd3_build_xradius kd3) = Some xr" and "i < length (kd3_items kd3)"
  shows "xr ! i = xradius_of (kd3_items kd3) i"
  using assms by (auto simp add: kd3_build_xradius_def)

text \<open>
  Claim C1, as stated, fails when \<open>i\<close> is the disabled index: in the three-color example
  with index 0 disabled, the query \<open>(0, 0, 0)\<close> is at distance 0 from color 0, inside its
  exclusive radius 268419072, and the query returns index 2.
\<close>

theorem xradius_disabled_counterexample:
  "kd3_disable kd3_ex 0 = Some (kd3_ex\<lparr>disabled := 0\<rparr>)
   \<and> xradius (kd3_build_xradius (kd3_ex\<lparr>disabled := 0\<rparr>))
       = Some [268419072, 536838144, 268419072]
   \<and> kc_distance (ks (kd3_ex\<lparr>disabled := 0\<rparr>) ! 0) \<lparr>a0 = 0, a1 = 0, a2 = 0\<rparr> < 268419072
   \<and> kd3_closest_transformed (kd3_build_xradius (kd3_ex\<lparr>disabled := 0\<rparr>)) \<lparr>a0 = 0, a1 = 0, a2 = 0\<rparr>
       = 2"
proof -
  have "kd3_disable kd3_ex 0 = Some (kd3_ex\<lparr>disabled := 0\<rparr>)"
    by (simp add: kd3_disable_def kd3_ex_def word_sless_alt)
  moreover have "xradius (kd3_build_xradius (kd3_ex\<lparr>disabled := 0\<rparr>))
       = Some [268419072, 536838144, 268419072]"
    by (simp add: kd3_build_xradius_def xradius_of_def kd3_items_def kd3_ex_def kc_distance_def
        upt_conv_Cons)
  moreover have "kc_distance (ks (kd3_ex\<lparr>disabled := 0\<rparr>) ! 0) \<lparr>a0 = 0, a1 = 0, a2 = 0\<rparr> < 268419072"
    by (simp add: kd3_ex_def kc_distance_def)
  moreover have "kd3_closest_transformed (kd3_build_xradius (kd3_ex\<lparr>disabled := 0\<rparr>))
      \<lparr>a0 = 0, a1 = 0, a2 = 0\<rparr> = 2"
    by (simp add: kd3_closest_transformed_def closest_scan_def closest_step_def
        kd3_build_xradius_def kd3_items_def kd3_ex_def kc_distance_def upt_conv_Cons)
  ultimately show ?thesis by simp
qed

text \<open>
  The range of the query is needed as well: for a query with negative components the
  32-bit distance wraps around. The query \<open>(-5071, -5071, -5069)\<close> is at distance
  77124843 from color 0, inside its exclusive radius, but its squared distance to color 1
  is \<open>2^32 + 24088\<close>, computed as 24088, and the query returns index 1.
\<close>

lemma xradius_needs_range:
  "xradius (kd3_build_xradius kd3_ex) = Some [268419072, 536838144, 268419072]
   \<and> kc_distance (ks kd3_ex ! 0) \<lparr>a0 = - 5071, a1 = - 5071, a2 = - 5069\<rparr> = 77124843
   \<and> kc_distance (ks kd3_ex ! 1) \<lparr>a0 = - 5071, a1 = - 5071, a2 = - 5069\<rparr> = 24088
   \<and> kd3_closest_transformed (kd3_build_xradius kd3_ex) \<lparr>a0 = - 5071, a1 = - 5071, a2 = - 5069\<rparr> = 1"
proof -
  have "xradius (kd3_build_xradius kd3_ex) = Some [268419072, 536838144, 268419072]"
    by (simp add: kd3_build_xradius_def xradius_of_def kd3_items_def kd3_ex_def kc_distance_def
        upt_conv_Cons)
  moreover have "kc_distance (ks kd3_ex ! 0) \<lparr>a0 = - 5071, a1 = - 5071, a2 = - 5069\<rparr> = 77124843"
    by (simp add: kd3_ex_def kc_distance_def)
  moreover have "kc_distance (ks kd3_ex ! 1) \<lparr>a0 = - 5071, a1 = - 5071, a2 = - 5069\<rparr> = 24088"
    by (simp add: kd3_ex_def kc_distance_def)
  moreover have "kd3_closest_transformed (kd3_build_xradius kd3_ex)
      \<lparr>a0 = - 5071, a1 = - 5071, a2 = - 5069\<rparr> = 1"
    by (simp add: kd3_closest_transformed_def closest_scan_def closest_step_def
        kd3_build_xradius_def kd3_items_def kd3_ex_def kc_distance_def upt_conv_Cons)
  ultimately show ?thesis by simp
qed

text \<open>
  Claim C1, amended. For an index whose colors have components in \<open>[0, 32767]\<close>, with the
  exclusive radii built, for every index \<open>i\<close> that is not the disabled one and every
  query color \<open>k\<close> with components in \<open>[0, 32767]\<close>: if
  \<open>kc_distance (ks[i], k) < xradius[i]\<close> then \<open>kd3_closest_transformed\<close> returns \<open>i\<close>.
\<close>

theorem xradius_sound_enabled:
  assumes cs: "\<forall>c \<in> set (kd3_items kd3). kc_inrange c" and k: "kc_inrange k"
    and i: "i < length (kd3_items kd3)" and en: "int i \<noteq> sint (disabled kd3)"
    and xr: "xradius (kd3_build_xradius kd3) = Some xr"
    and lt: "kc_distance (kd3_items kd3 ! i) k < xr ! i"
  shows "kd3_closest_transformed (kd3_build_xradius kd3) k = of_nat i"
proof -
  let ?cs = "kd3_items kd3"
  let ?b = "kd3_build_xradius kd3"
  have pi: "kc_inrange (?cs ! i)" using cs i by simp
  have lt': "kc_distance (?cs ! i) k < xradius_of ?cs i"
    using lt xradius_build [OF xr i] by simp
  have nearer: "kc_distance (?cs ! i) k < kc_distance (?cs ! j) k"
    if j: "j < length ?cs" and ne: "j \<noteq> i" for j
  proof -
    have "kc_inrange (?cs ! j)" using cs j by simp
    moreover have "kc_distance (?cs ! i) k < kc_distance (?cs ! i) (?cs ! j) div 4"
      using lt' xradius_of_le [OF j ne] by (rule less_le_trans)
    ultimately show ?thesis using pi k by (intro inside_xradius_nearer)
  qed
  have "\<exists>j \<in> {0..<length (kd3_items ?b)}. int j \<noteq> sint (disabled ?b)"
    using i en by (auto simp add: kd3_items_build disabled_build)
  from closest_transformed_enabled [OF this, of k]
  obtain r where r: "kd3_closest_transformed ?b k = of_nat r"
    "nearest_enabled ?cs (disabled kd3) k r"
    by (auto simp add: kd3_items_build disabled_build)
  have "r = i"
  proof (rule ccontr)
    assume "r \<noteq> i"
    moreover have "r < length ?cs" using r(2) by (simp add: nearest_enabled_def)
    ultimately have "kc_distance (?cs ! i) k < kc_distance (?cs ! r) k" by (intro nearer)
    moreover have "kc_distance (?cs ! r) k \<le> kc_distance (?cs ! i) k"
      using r(2) i en by (simp add: nearest_enabled_def)
    ultimately show False by simp
  qed
  with r(1) show ?thesis by simp
qed

theorem xradius_sound_enabled_witness:
  "list_all kc_inrange (kd3_items kd3_ex) \<and> kc_inrange \<lparr>a0 = 30000, a1 = 100, a2 = 100\<rparr>
   \<and> xradius (kd3_build_xradius kd3_ex) = Some [268419072, 536838144, 268419072]
   \<and> kc_distance (kd3_items kd3_ex ! 2) \<lparr>a0 = 30000, a1 = 100, a2 = 100\<rparr> = 7676289
   \<and> kd3_closest_transformed (kd3_build_xradius kd3_ex) \<lparr>a0 = 30000, a1 = 100, a2 = 100\<rparr> = 2"
proof -
  have c: "\<forall>c \<in> set (kd3_items kd3_ex). kc_inrange c"
    by (simp add: kd3_items_def kd3_ex_def kc_inrange_def)
  have k: "kc_inrange \<lparr>a0 = 30000, a1 = 100, a2 = 100\<rparr>" by (simp add: kc_inrange_def)
  have i: "2 < length (kd3_items kd3_ex)" by (simp add: kd3_items_def kd3_ex_def)
  have e: "int 2 \<noteq> sint (disabled kd3_ex)" by (simp add: kd3_ex_def)
  have x: "xradius (kd3_build_xradius kd3_ex) = Some [268419072, 536838144, 268419072]"
    by (simp add: kd3_build_xradius_def xradius_of_def kd3_items_def kd3_ex_def kc_distance_def
        upt_conv_Cons)
  have d: "kc_distance (kd3_items kd3_ex ! 2) \<lparr>a0 = 30000, a1 = 100, a2 = 100\<rparr> = 7676289"
    by (simp add: kd3_items_def kd3_ex_def kc_distance_def)
  then have l: "kc_distance (kd3_items kd3_ex ! 2) \<lparr>a0 = 30000, a1 = 100, a2 = 100\<rparr>
      < [268419072, 536838144, 268419072] ! 2"
    by simp
  from xradius_sound_enabled [OF c k i e x l] c k x d show ?thesis
    by (simp add: list_all_iff)
qed

end
